theory Spec2Isabelle
  imports Complex_Main
begin

section \<open>Data model of the blackjack engine (Blackjack.ts)\<close>

text \<open>
  Numbers of the source are modelled as integers (\<open>rank\<close>, \<open>suit\<close>, \<open>bet\<close>, hand totals),
  array lengths and indices as naturals. The payout factor is a rational; the engine
  never computes with it.
\<close>

record Card =
  rank :: int
  suit :: int

datatype GamePhase = BETTING | PLAYER_TURN | DEALER_TURN | ROUND_OVER

datatype HandStatus = ACTIVE | STOOD | BUST | BLACKJACK

datatype HandResult = PENDING | PLAYER_WINS | DEALER_WINS | PUSH

datatype PlayerAction = HIT | STAND | DOUBLE_DOWN | SPLIT | INSURANCE

record HandState =
  cards :: "Card list"
  bet :: int
  status :: HandStatus
  result :: HandResult

record GameOptions =
  numberOfDecks :: int
  dealerHitsOnSoft17 :: bool
  blackjackPayout :: rat

text \<open>The type \<open>HandValue\<close> of the source; its field \<open>value\<close> is \<open>hv_value\<close> here.\<close>

record HandValue =
  hv_value :: int
  isSoft :: bool

text \<open>The private fields of class \<open>BlackjackGame\<close>. The deck is consumed from its end.\<close>

record BlackjackGame =
  deck :: "Card list"
  playerHands :: "HandState list"
  dealerHand :: "Card list"
  activeHandIndex :: nat
  phase :: GamePhase
  options :: GameOptions

text \<open>The snapshot type \<open>GameState\<close>; its fields carry the prefix \<open>s_\<close>.\<close>

record GameState =
  s_deckSize :: nat
  s_playerHands :: "HandState list"
  s_dealerHand :: "Card list"
  s_activeHandIndex :: nat
  s_phase :: GamePhase
  s_dealerUpCardValue :: int
  s_availableActions :: "PlayerAction list"

text \<open>
  The errors the engine can raise: the two \<open>throw new Error\<close> of the source, and the
  TypeError of JavaScript when a property of \<open>undefined\<close> is read (an array read out
  of range yields \<open>undefined\<close>).
\<close>

datatype error = BetNotPositive | DeckEmpty | TypeError

section \<open>Hand value\<close>

text \<open>The body of the \<open>for\<close> loop of \<open>getHandValue\<close>, on the pair \<open>(sum, aceCount)\<close>.\<close>

fun addCard :: "int \<times> nat \<Rightarrow> Card \<Rightarrow> int \<times> nat" where
  "addCard (sm, aceCount) crd =
     (if rank crd > 10 then (sm + 10, aceCount)
      else if rank crd = 1 then (sm + 11, aceCount + 1)
      else (sm + rank crd, aceCount))"

text \<open>The loop \<open>while (sum > 21 && aceCount > 0) { sum -= 10; aceCount--; }\<close>.\<close>

fun demote :: "int \<Rightarrow> nat \<Rightarrow> int \<times> nat" where
  "demote sm 0 = (sm, 0)"
| "demote sm (Suc n) = (if sm > 21 then demote (sm - 10) n else (sm, Suc n))"

definition getHandValue :: "Card list \<Rightarrow> HandValue" where
  "getHandValue hand =
     (if hand = [] then \<lparr>hv_value = 0, isSoft = False\<rparr>
      else
        (case foldl addCard (0, 0) hand of (sm0, aceCount0) \<Rightarrow>
          (case demote sm0 aceCount0 of (sm, aceCount) \<Rightarrow>
             \<lparr>hv_value = sm,
              isSoft = (aceCount > 0 \<and> sm + 10 * int aceCount \<le> 21)\<rparr>)))"

section \<open>Shoe\<close>

text \<open>
  \<open>Math.random\<close> is modelled by a source \<open>rnd\<close> of naturals:
  \<open>Math.floor(Math.random() * currentIndex)\<close> is some index below \<open>currentIndex\<close>,
  here \<open>rnd currentIndex mod currentIndex\<close>. The second argument of \<open>shuffle\<close> is the
  loop variable \<open>currentIndex\<close>, started at the length of the array.
\<close>

fun shuffle :: "(nat \<Rightarrow> nat) \<Rightarrow> nat \<Rightarrow> 'a list \<Rightarrow> 'a list" where
  "shuffle rnd 0 array = array"
| "shuffle rnd (Suc currentIndex) array =
     (let randomIndex = rnd (Suc currentIndex) mod Suc currentIndex
      in shuffle rnd currentIndex
           (array[currentIndex := array ! randomIndex, randomIndex := array ! currentIndex]))"

definition oneDeck :: "Card list" where
  "oneDeck = concat (map (\<lambda>s. map (\<lambda>r. \<lparr>rank = r, suit = s\<rparr>) [1..13]) [0, 1, 2, 3])"

definition createNewDeck :: "(nat \<Rightarrow> nat) \<Rightarrow> BlackjackGame \<Rightarrow> Card list" where
  "createNewDeck rnd g =
     (let d = concat (replicate (nat (numberOfDecks (options g))) oneDeck)
      in shuffle rnd (length d) d)"

text \<open>
  \<open>dealCard\<close> throws on an empty deck and otherwise pops the last card. A throw leaves
  the engine as it is.
\<close>

definition dealCard :: "BlackjackGame \<Rightarrow> error + (Card \<times> BlackjackGame)" where
  "dealCard g =
     (if deck g = [] then Inl DeckEmpty
      else Inr (last (deck g), g\<lparr>deck := butlast (deck g)\<rparr>))"

section \<open>Legal actions\<close>

definition canSplit :: "HandState \<Rightarrow> bool" where
  "canSplit hand =
     (case cards hand of
        [card1, card2] \<Rightarrow>
          (let value1 = (if rank card1 > 9 then 10 else rank card1);
               value2 = (if rank card2 > 9 then 10 else rank card2)
           in value1 = value2)
      | _ \<Rightarrow> False)"

text \<open>
  \<open>getActiveHand\<close> reads \<open>playerHands[activeHandIndex]\<close>; out of range the read gives
  \<open>undefined\<close>, and \<open>getAvailableActions\<close> then throws a TypeError at \<open>activeHand.cards\<close>.
\<close>

definition getActiveHand :: "BlackjackGame \<Rightarrow> HandState option" where
  "getActiveHand g =
     (if activeHandIndex g < length (playerHands g)
      then Some (playerHands g ! activeHandIndex g) else None)"

definition getAvailableActions :: "BlackjackGame \<Rightarrow> error + PlayerAction list" where
  "getAvailableActions g =
     (if phase g \<noteq> PLAYER_TURN then Inr []
      else
        (case getActiveHand g of
           None \<Rightarrow> Inl TypeError
         | Some activeHand \<Rightarrow>
             (let isFirstTurn = (length (cards activeHand) = 2)
              in Inr ([HIT, STAND]
                      @ (if isFirstTurn then [DOUBLE_DOWN] else [])
                      @ (if isFirstTurn \<and> canSplit activeHand then [SPLIT] else [])))))"

definition canPerformAction :: "PlayerAction \<Rightarrow> BlackjackGame \<Rightarrow> error + bool" where
  "canPerformAction action g =
     (case getAvailableActions g of
        Inl e \<Rightarrow> Inl e
      | Inr actions \<Rightarrow> Inr (action \<in> set actions))"

section \<open>Settlement and dealer resolution\<close>

text \<open>
  A mutating method returns the error it threw, if any, together with the engine as the
  call leaves it: the object outlives a throw, with the mutations made before it.
\<close>

type_synonym outcome = "error option \<times> BlackjackGame"

text \<open>The body of the loop of \<open>evaluateResults\<close> for one hand.\<close>

definition settleHand :: "int \<Rightarrow> bool \<Rightarrow> HandState \<Rightarrow> HandState" where
  "settleHand dealerValue dealerHasBlackjack hand =
     (if status hand = BUST then hand\<lparr>result := DEALER_WINS\<rparr>
      else if status hand = BLACKJACK
        then hand\<lparr>result := (if dealerHasBlackjack then PUSH else PLAYER_WINS)\<rparr>
      else
        (let playerValue = hv_value (getHandValue (cards hand))
         in if dealerValue > 21 \<or> playerValue > dealerValue then hand\<lparr>result := PLAYER_WINS\<rparr>
            else if playerValue < dealerValue then hand\<lparr>result := DEALER_WINS\<rparr>
            else hand\<lparr>result := PUSH\<rparr>))"

definition evaluateResults :: "BlackjackGame \<Rightarrow> BlackjackGame" where
  "evaluateResults g =
     (let dealerValue = hv_value (getHandValue (dealerHand g));
          dealerHasBlackjack = (dealerValue = 21 \<and> length (dealerHand g) = 2)
      in g\<lparr>playerHands := map (settleHand dealerValue dealerHasBlackjack) (playerHands g),
            phase := ROUND_OVER\<rparr>)"

text \<open>The condition of the \<open>while\<close> loop of \<open>resolveDealerTurn\<close>.\<close>

definition dealerMustDraw :: "BlackjackGame \<Rightarrow> bool" where
  "dealerMustDraw g =
     (let dealerValue = getHandValue (dealerHand g)
      in hv_value dealerValue < 17
         \<or> (hv_value dealerValue = 17 \<and> isSoft dealerValue
             \<and> dealerHitsOnSoft17 (options g)))"

text \<open>The loop itself. Every round of it pops a card of the deck, or throws.\<close>

function dealerDraw :: "BlackjackGame \<Rightarrow> outcome" where
  "dealerDraw g =
     (if dealerMustDraw g
      then (case dealCard g of
              Inl e \<Rightarrow> (Some e, g)
            | Inr (crd, g1) \<Rightarrow> dealerDraw (g1\<lparr>dealerHand := dealerHand g1 @ [crd]\<rparr>))
      else (None, g))"
  by pat_completeness auto
termination
  by (relation "measure (\<lambda>g. length (deck g))")
     (auto simp: dealCard_def split: if_splits)

declare dealerDraw.simps [simp del]

definition resolveDealerTurn :: "BlackjackGame \<Rightarrow> outcome" where
  "resolveDealerTurn g =
     (case dealerDraw (g\<lparr>phase := DEALER_TURN\<rparr>) of
        (Some e, g1) \<Rightarrow> (Some e, g1)
      | (None, g1) \<Rightarrow> (None, evaluateResults g1))"

text \<open>\<open>Array.prototype.findIndex\<close>; the argument \<open>i\<close> is the index of the head of the list.\<close>

fun findIndex :: "('a \<Rightarrow> nat \<Rightarrow> bool) \<Rightarrow> nat \<Rightarrow> 'a list \<Rightarrow> nat option" where
  "findIndex p i [] = None"
| "findIndex p i (x # xs) = (if p x i then Some i else findIndex p (Suc i) xs)"

definition moveToNextHandOrResolve :: "BlackjackGame \<Rightarrow> outcome" where
  "moveToNextHandOrResolve g =
     (case findIndex (\<lambda>hand index. index > activeHandIndex g \<and> status hand = ACTIVE)
             0 (playerHands g) of
        Some nextActiveHandIndex \<Rightarrow> (None, g\<lparr>activeHandIndex := nextActiveHandIndex\<rparr>)
      | None \<Rightarrow> resolveDealerTurn g)"

section \<open>Public operations\<close>

definition resetGame :: "(nat \<Rightarrow> nat) \<Rightarrow> BlackjackGame \<Rightarrow> BlackjackGame" where
  "resetGame rnd g =
     g\<lparr>deck := createNewDeck rnd g, playerHands := [], dealerHand := [],
       activeHandIndex := 0, phase := BETTING\<rparr>"

text \<open>The constructor: the given options, then \<open>resetGame\<close> on the field initialisers.\<close>

definition construct :: "(nat \<Rightarrow> nat) \<Rightarrow> GameOptions \<Rightarrow> BlackjackGame" where
  "construct rnd opts =
     resetGame rnd \<lparr>deck = [], playerHands = [], dealerHand = [], activeHandIndex = 0,
                    phase = BETTING, options = opts\<rparr>"

text \<open>
  \<open>startRound\<close>. The comparison \<open>deck.length < numberOfDecks * 52 / 3\<close> is over the reals
  in the source; it is written here multiplied by 3. The four cards are dealt in the
  order of the source, the player's hand being assigned before the dealer's cards are
  drawn.
\<close>

definition startRound :: "(nat \<Rightarrow> nat) \<Rightarrow> int \<Rightarrow> BlackjackGame \<Rightarrow> outcome" where
  "startRound rnd betAmount g =
     (if phase g \<noteq> BETTING \<and> phase g \<noteq> ROUND_OVER then (None, g)
      else if betAmount \<le> 0 then (Some BetNotPositive, g)
      else
        (let g0 = (if 3 * int (length (deck g)) < numberOfDecks (options g) * 52
                   then g\<lparr>deck := createNewDeck rnd g\<rparr> else g)
         in case dealCard g0 of Inl e \<Rightarrow> (Some e, g0) | Inr (c1, g1) \<Rightarrow>
            (case dealCard g1 of Inl e \<Rightarrow> (Some e, g1) | Inr (c2, g2) \<Rightarrow>
            (let g3 = g2\<lparr>playerHands :=
                          [\<lparr>cards = [c1, c2], bet = betAmount, status = ACTIVE,
                            result = PENDING\<rparr>]\<rparr>
             in case dealCard g3 of Inl e \<Rightarrow> (Some e, g3) | Inr (c3, g4) \<Rightarrow>
                (case dealCard g4 of Inl e \<Rightarrow> (Some e, g4) | Inr (c4, g5) \<Rightarrow>
                (let g6 = g5\<lparr>dealerHand := [c3, c4], activeHandIndex := 0,
                              phase := PLAYER_TURN\<rparr>
                 in if hv_value (getHandValue [c1, c2]) = 21
                    then resolveDealerTurn
                           (g6\<lparr>playerHands :=
                                 [\<lparr>cards = [c1, c2], bet = betAmount, status = BLACKJACK,
                                   result = PENDING\<rparr>]\<rparr>)
                    else (None, g6)))))))"

text \<open>
  In \<open>hit\<close>, \<open>doubleDown\<close> and \<open>split\<close> the active hand exists once the action has been
  found legal, since \<open>getAvailableActions\<close> has read it.
\<close>

definition hit :: "BlackjackGame \<Rightarrow> outcome" where
  "hit g =
     (case canPerformAction HIT g of
        Inl e \<Rightarrow> (Some e, g)
      | Inr False \<Rightarrow> (None, g)
      | Inr True \<Rightarrow>
          (case dealCard g of
             Inl e \<Rightarrow> (Some e, g)
           | Inr (crd, g1) \<Rightarrow>
               (let i = activeHandIndex g1;
                    activeHand = playerHands g1 ! i;
                    activeHand1 = activeHand\<lparr>cards := cards activeHand @ [crd]\<rparr>
                in if hv_value (getHandValue (cards activeHand1)) > 21
                   then moveToNextHandOrResolve
                          (g1\<lparr>playerHands := (playerHands g1)[i := activeHand1\<lparr>status := BUST\<rparr>]\<rparr>)
                   else (None, g1\<lparr>playerHands := (playerHands g1)[i := activeHand1]\<rparr>))))"

definition stand :: "BlackjackGame \<Rightarrow> outcome" where
  "stand g =
     (case canPerformAction STAND g of
        Inl e \<Rightarrow> (Some e, g)
      | Inr False \<Rightarrow> (None, g)
      | Inr True \<Rightarrow>
          (let i = activeHandIndex g;
               activeHand = playerHands g ! i
           in moveToNextHandOrResolve
                (g\<lparr>playerHands := (playerHands g)[i := activeHand\<lparr>status := STOOD\<rparr>]\<rparr>)))"

text \<open>
  \<open>doubleDown\<close> doubles the bet before it draws, so a throw of \<open>dealCard\<close> leaves the bet
  doubled.
\<close>

definition doubleDown :: "BlackjackGame \<Rightarrow> outcome" where
  "doubleDown g =
     (case canPerformAction DOUBLE_DOWN g of
        Inl e \<Rightarrow> (Some e, g)
      | Inr False \<Rightarrow> (None, g)
      | Inr True \<Rightarrow>
          (let i = activeHandIndex g;
               activeHand = playerHands g ! i;
               g0 = g\<lparr>playerHands := (playerHands g)[i := activeHand\<lparr>bet := bet activeHand * 2\<rparr>]\<rparr>
           in case dealCard g0 of
                Inl e \<Rightarrow> (Some e, g0)
              | Inr (crd, g1) \<Rightarrow>
                  (let activeHand1 = playerHands g1 ! i;
                       cards1 = cards activeHand1 @ [crd];
                       activeHand2 = activeHand1
                         \<lparr>cards := cards1,
                          status := (if hv_value (getHandValue cards1) > 21 then BUST else STOOD)\<rparr>
                   in moveToNextHandOrResolve
                        (g1\<lparr>playerHands := (playerHands g1)[i := activeHand2]\<rparr>))))"

text \<open>
  \<open>split\<close> pops the last card of the active hand into the new hand, then draws one card
  for each hand, then inserts the new hand with \<open>splice(activeHandIndex + 1, 0, newHand)\<close>.
  A throw of the first draw leaves the active hand with one card, a throw of the second
  leaves it with two and the new hand not inserted.
\<close>

definition split :: "BlackjackGame \<Rightarrow> outcome" where
  "split g =
     (case canPerformAction SPLIT g of
        Inl e \<Rightarrow> (Some e, g)
      | Inr False \<Rightarrow> (None, g)
      | Inr True \<Rightarrow>
          (let i = activeHandIndex g;
               activeHand = playerHands g ! i;
               popped = last (cards activeHand);
               activeHand0 = activeHand\<lparr>cards := butlast (cards activeHand)\<rparr>;
               g0 = g\<lparr>playerHands := (playerHands g)[i := activeHand0]\<rparr>
           in case dealCard g0 of
                Inl e \<Rightarrow> (Some e, g0)
              | Inr (cardA, g1) \<Rightarrow>
                  (let activeHand1 = activeHand0\<lparr>cards := cards activeHand0 @ [cardA]\<rparr>;
                       g2 = g1\<lparr>playerHands := (playerHands g1)[i := activeHand1]\<rparr>
                   in case dealCard g2 of
                        Inl e \<Rightarrow> (Some e, g2)
                      | Inr (cardB, g3) \<Rightarrow>
                          (let newHand = \<lparr>cards = [popped, cardB], bet = bet activeHand,
                                          status = ACTIVE, result = PENDING\<rparr>;
                               hands = take (i + 1) (playerHands g3) @ [newHand]
                                       @ drop (i + 1) (playerHands g3);
                               activeHand2 =
                                 (if hv_value (getHandValue (cards activeHand1)) = 21
                                  then activeHand1\<lparr>status := STOOD\<rparr> else activeHand1)
                           in (None, g3\<lparr>playerHands := hands[i := activeHand2]\<rparr>)))))"

text \<open>
  \<open>getState\<close>. On the integers of this model \<open>JSON.parse(JSON.stringify(_))\<close> gives back
  the value it is given. The field \<open>dealerUpCardValue\<close> is computed by
  \<open>getHandValue([this.dealerHand[0]])\<close>: on an empty dealer hand the array holds
  \<open>undefined\<close> and has length 1, so the loop of \<open>getHandValue\<close> reads \<open>card.rank\<close> of
  \<open>undefined\<close> and throws. \<open>getState\<close> changes no field of the engine.
\<close>

definition getState :: "BlackjackGame \<Rightarrow> error + GameState" where
  "getState g =
     (case dealerHand g of
        [] \<Rightarrow> Inl TypeError
      | upCard # _ \<Rightarrow>
          (case getAvailableActions g of
             Inl e \<Rightarrow> Inl e
           | Inr actions \<Rightarrow>
               Inr \<lparr>s_deckSize = length (deck g),
                    s_playerHands = playerHands g,
                    s_dealerHand = (if phase g = PLAYER_TURN then [upCard] else dealerHand g),
                    s_activeHandIndex = activeHandIndex g,
                    s_phase = phase g,
                    s_dealerUpCardValue = hv_value (getHandValue [upCard]),
                    s_availableActions = actions\<rparr>))"

text \<open>The engines a caller can obtain: constructed, then driven through the public methods.\<close>

inductive reachable :: "BlackjackGame \<Rightarrow> bool" where
  r_construct: "reachable (construct rnd opts)"
| r_resetGame: "reachable g \<Longrightarrow> reachable (resetGame rnd g)"
| r_startRound: "reachable g \<Longrightarrow> reachable (snd (startRound rnd betAmount g))"
| r_hit: "reachable g \<Longrightarrow> reachable (snd (hit g))"
| r_stand: "reachable g \<Longrightarrow> reachable (snd (stand g))"
| r_doubleDown: "reachable g \<Longrightarrow> reachable (snd (doubleDown g))"
| r_split: "reachable g \<Longrightarrow> reachable (snd (split g))"

text \<open>The invariant of the engine: during the player's turn the active hand exists.\<close>

definition active_ok :: "BlackjackGame \<Rightarrow> bool" where
  "active_ok g = (phase g = PLAYER_TURN \<longrightarrow> activeHandIndex g < length (playerHands g))"

section \<open>The snapshot over a store of Card objects\<close>

text \<open>
  For the sharing between a snapshot and the engine, the Card objects live in a store
  and the arrays hold their addresses. The arrays and the HandState objects of a
  snapshot are new objects in every case (an array literal, a spread, the result of
  \<open>JSON.parse\<close>), so they stay values here; only Card objects can be shared. An address is
  an index into the store, and a new object is appended to it.
\<close>

type_synonym ref = nat

type_synonym store = "Card list"

record HandRefs =
  r_cards :: "ref list"
  r_bet :: int
  r_status :: HandStatus
  r_result :: HandResult

record EngineRefs =
  e_deck :: "ref list"
  e_playerHands :: "HandRefs list"
  e_dealerHand :: "ref list"
  e_activeHandIndex :: nat
  e_phase :: GamePhase
  e_options :: GameOptions

record SnapshotRefs =
  sr_deckSize :: nat
  sr_playerHands :: "HandRefs list"
  sr_dealerHand :: "ref list"
  sr_activeHandIndex :: nat
  sr_phase :: GamePhase
  sr_dealerUpCardValue :: int
  sr_availableActions :: "PlayerAction list"

text \<open>Reading the objects behind the addresses gives the values of the first model.\<close>

definition readHand :: "store \<Rightarrow> HandRefs \<Rightarrow> HandState" where
  "readHand st h =
     \<lparr>cards = map (\<lambda>r. st ! r) (r_cards h), bet = r_bet h, status = r_status h,
      result = r_result h\<rparr>"

definition readEngine :: "store \<Rightarrow> EngineRefs \<Rightarrow> BlackjackGame" where
  "readEngine st e =
     \<lparr>deck = map (\<lambda>r. st ! r) (e_deck e),
      playerHands = map (readHand st) (e_playerHands e),
      dealerHand = map (\<lambda>r. st ! r) (e_dealerHand e),
      activeHandIndex = e_activeHandIndex e,
      phase = e_phase e,
      options = e_options e\<rparr>"

definition readSnapshot :: "store \<Rightarrow> SnapshotRefs \<Rightarrow> GameState" where
  "readSnapshot st s =
     \<lparr>s_deckSize = sr_deckSize s,
      s_playerHands = map (readHand st) (sr_playerHands s),
      s_dealerHand = map (\<lambda>r. st ! r) (sr_dealerHand s),
      s_activeHandIndex = sr_activeHandIndex s,
      s_phase = sr_phase s,
      s_dealerUpCardValue = sr_dealerUpCardValue s,
      s_availableActions = sr_availableActions s\<rparr>"

text \<open>
  \<open>JSON.parse(JSON.stringify(this.playerHands))\<close>: every card of every hand becomes a new
  object with the same fields.
\<close>

fun copyCards :: "store \<Rightarrow> ref list \<Rightarrow> store \<times> ref list" where
  "copyCards st [] = (st, [])"
| "copyCards st (r # rs) =
     (case copyCards (st @ [st ! r]) rs of (st1, rs1) \<Rightarrow> (st1, length st # rs1))"

fun copyHands :: "store \<Rightarrow> HandRefs list \<Rightarrow> store \<times> HandRefs list" where
  "copyHands st [] = (st, [])"
| "copyHands st (h # hs) =
     (case copyCards st (r_cards h) of (st1, cs) \<Rightarrow>
        (case copyHands st1 hs of (st2, hs1) \<Rightarrow> (st2, h\<lparr>r_cards := cs\<rparr> # hs1)))"

text \<open>
  \<open>getState\<close> on addresses: the player's hands are copied, the dealer's hand is
  \<open>[this.dealerHand[0]]\<close> or \<open>[...this.dealerHand]\<close>, a new array of the same Card
  objects.
\<close>

definition getStateRefs :: "store \<Rightarrow> EngineRefs \<Rightarrow> error + (store \<times> SnapshotRefs)" where
  "getStateRefs st e =
     (case copyHands st (e_playerHands e) of (st1, hands) \<Rightarrow>
        (case e_dealerHand e of
           [] \<Rightarrow> Inl TypeError
         | upCard # _ \<Rightarrow>
             (case getAvailableActions (readEngine st e) of
                Inl err \<Rightarrow> Inl err
              | Inr actions \<Rightarrow>
                  Inr (st1,
                       \<lparr>sr_deckSize = length (e_deck e),
                        sr_playerHands = hands,
                        sr_dealerHand =
                          (if e_phase e = PLAYER_TURN then [upCard] else e_dealerHand e),
                        sr_activeHandIndex = e_activeHandIndex e,
                        sr_phase = e_phase e,
                        sr_dealerUpCardValue = hv_value (getHandValue [st ! upCard]),
                        sr_availableActions = actions\<rparr>))))"

text \<open>The assignment \<open>c.rank = v\<close> through a reference \<open>c\<close> to a Card object.\<close>

definition writeRank :: "store \<Rightarrow> ref \<Rightarrow> int \<Rightarrow> store" where
  "writeRank st r v = st[r := (st ! r)\<lparr>rank := v\<rparr>]"

text \<open>The addresses held by the engine point into the store.\<close>

definition refs_ok :: "store \<Rightarrow> EngineRefs \<Rightarrow> bool" where
  "refs_ok st e =
     (list_all (\<lambda>r. r < length st) (e_deck e)
      \<and> list_all (\<lambda>r. r < length st) (e_dealerHand e)
      \<and> list_all (\<lambda>h. list_all (\<lambda>r. r < length st) (r_cards h)) (e_playerHands e))"

section \<open>Example states\<close>

text \<open>A round that is over, the player having stood on 19 against 18.\<close>

definition g_over :: BlackjackGame where
  "g_over = \<lparr>deck = [\<lparr>rank = 5, suit = 0\<rparr>, \<lparr>rank = 4, suit = 1\<rparr>],
     playerHands = [\<lparr>cards = [\<lparr>rank = 10, suit = 0\<rparr>, \<lparr>rank = 9, suit = 0\<rparr>], bet = 10,
                      status = STOOD, result = PLAYER_WINS\<rparr>],
     dealerHand = [\<lparr>rank = 10, suit = 1\<rparr>, \<lparr>rank = 8, suit = 1\<rparr>],
     activeHandIndex = 0, phase = ROUND_OVER,
     options = \<lparr>numberOfDecks = 1, dealerHitsOnSoft17 = True, blackjackPayout = 3 / 2\<rparr>\<rparr>"

text \<open>The player's turn on a ten and a king; the deck ends with a king, the next card dealt.\<close>

definition g_turn :: BlackjackGame where
  "g_turn = \<lparr>deck = [\<lparr>rank = 5, suit = 0\<rparr>, \<lparr>rank = 4, suit = 1\<rparr>, \<lparr>rank = 13, suit = 2\<rparr>],
     playerHands = [\<lparr>cards = [\<lparr>rank = 10, suit = 0\<rparr>, \<lparr>rank = 13, suit = 0\<rparr>], bet = 10,
                      status = ACTIVE, result = PENDING\<rparr>],
     dealerHand = [\<lparr>rank = 10, suit = 1\<rparr>, \<lparr>rank = 8, suit = 1\<rparr>],
     activeHandIndex = 0, phase = PLAYER_TURN,
     options = \<lparr>numberOfDecks = 1, dealerHitsOnSoft17 = True, blackjackPayout = 3 / 2\<rparr>\<rparr>"

text \<open>The same turn on a nine and a ten, and on two aces.\<close>

definition g_turn_9_10 :: BlackjackGame where
  "g_turn_9_10 = g_turn\<lparr>playerHands :=
      [\<lparr>cards = [\<lparr>rank = 9, suit = 0\<rparr>, \<lparr>rank = 10, suit = 0\<rparr>], bet = 10,
        status = ACTIVE, result = PENDING\<rparr>]\<rparr>"

definition g_aces :: BlackjackGame where
  "g_aces = g_turn\<lparr>playerHands :=
      [\<lparr>cards = [\<lparr>rank = 1, suit = 0\<rparr>, \<lparr>rank = 1, suit = 1\<rparr>], bet = 10,
        status = ACTIVE, result = PENDING\<rparr>]\<rparr>"

text \<open>The player's turn on a hand of three cards.\<close>

definition g_three :: BlackjackGame where
  "g_three = g_turn\<lparr>playerHands :=
      [\<lparr>cards = [\<lparr>rank = 5, suit = 0\<rparr>, \<lparr>rank = 6, suit = 0\<rparr>, \<lparr>rank = 2, suit = 3\<rparr>],
        bet = 10, status = ACTIVE, result = PENDING\<rparr>]\<rparr>"

text \<open>An engine before the first round.\<close>

definition g_betting :: BlackjackGame where
  "g_betting = \<lparr>deck = [\<lparr>rank = 5, suit = 0\<rparr>, \<lparr>rank = 4, suit = 1\<rparr>, \<lparr>rank = 13, suit = 2\<rparr>,
                       \<lparr>rank = 7, suit = 2\<rparr>],
     playerHands = [], dealerHand = [],
     activeHandIndex = 0, phase = BETTING,
     options = \<lparr>numberOfDecks = 1, dealerHitsOnSoft17 = True, blackjackPayout = 3 / 2\<rparr>\<rparr>"

text \<open>Five finished hands against a dealer on 18.\<close>

definition g_settle :: BlackjackGame where
  "g_settle = \<lparr>deck = [\<lparr>rank = 5, suit = 0\<rparr>],
     playerHands =
       [\<lparr>cards = [\<lparr>rank = 10, suit = 0\<rparr>, \<lparr>rank = 9, suit = 0\<rparr>, \<lparr>rank = 5, suit = 1\<rparr>],
         bet = 10, status = BUST, result = PENDING\<rparr>,
        \<lparr>cards = [\<lparr>rank = 1, suit = 0\<rparr>, \<lparr>rank = 13, suit = 0\<rparr>],
         bet = 10, status = BLACKJACK, result = PENDING\<rparr>,
        \<lparr>cards = [\<lparr>rank = 10, suit = 2\<rparr>, \<lparr>rank = 9, suit = 2\<rparr>],
         bet = 10, status = STOOD, result = PENDING\<rparr>,
        \<lparr>cards = [\<lparr>rank = 10, suit = 3\<rparr>, \<lparr>rank = 7, suit = 3\<rparr>],
         bet = 10, status = STOOD, result = PENDING\<rparr>,
        \<lparr>cards = [\<lparr>rank = 12, suit = 3\<rparr>, \<lparr>rank = 8, suit = 3\<rparr>],
         bet = 20, status = STOOD, result = PENDING\<rparr>],
     dealerHand = [\<lparr>rank = 10, suit = 1\<rparr>, \<lparr>rank = 8, suit = 1\<rparr>],
     activeHandIndex = 4, phase = DEALER_TURN,
     options = \<lparr>numberOfDecks = 1, dealerHitsOnSoft17 = True, blackjackPayout = 3 / 2\<rparr>\<rparr>"

text \<open>A finished round: the dealer holds the objects 0 and 1, the player 2 and 3.\<close>

definition store0 :: store where
  "store0 = [\<lparr>rank = 10, suit = 1\<rparr>, \<lparr>rank = 8, suit = 1\<rparr>,
             \<lparr>rank = 10, suit = 0\<rparr>, \<lparr>rank = 9, suit = 0\<rparr>, \<lparr>rank = 5, suit = 0\<rparr>]"

definition engine0 :: EngineRefs where
  "engine0 = \<lparr>e_deck = [4],
     e_playerHands = [\<lparr>r_cards = [2, 3], r_bet = 10, r_status = STOOD,
                        r_result = PLAYER_WINS\<rparr>],
     e_dealerHand = [0, 1],
     e_activeHandIndex = 0, e_phase = ROUND_OVER,
     e_options = \<lparr>numberOfDecks = 1, dealerHitsOnSoft17 = True, blackjackPayout = 3 / 2\<rparr>\<rparr>"

definition store1 :: store where
  "store1 = store0 @ [\<lparr>rank = 10, suit = 0\<rparr>, \<lparr>rank = 9, suit = 0\<rparr>]"

definition snapshot1 :: SnapshotRefs where
  "snapshot1 = \<lparr>sr_deckSize = 1,
     sr_playerHands = [\<lparr>r_cards = [5, 6], r_bet = 10, r_status = STOOD,
                         r_result = PLAYER_WINS\<rparr>],
     sr_dealerHand = [0, 1],
     sr_activeHandIndex = 0, sr_phase = ROUND_OVER,
     sr_dealerUpCardValue = 10, sr_availableActions = []\<rparr>"

text \<open>
  A shuffle table for one deck and the play it allows. On the deck it gives, five rounds
  in which the player stands at once use 34 cards, so the sixth round starts on the 18
  cards left, without a reshuffle, and deals two ten-valued cards to the player. The
  shuffle of 52 cards reads the table at 1 to 52 only.
\<close>

definition rnd_table :: "nat \<Rightarrow> nat" where
  "rnd_table n =
     [0, 0, 1, 1, 0, 2, 2, 2, 5, 5, 7, 1, 2, 6, 3, 13, 11, 4, 14, 1, 15, 1, 1, 5,
      4, 2, 3, 26, 13, 2, 27, 3, 0, 16, 27, 16, 31, 29, 19, 18, 32, 3, 30, 32, 17,
      32, 4, 40, 28, 14, 6, 7, 8] ! n"

definition opts1 :: GameOptions where
  "opts1 = \<lparr>numberOfDecks = 1, dealerHitsOnSoft17 = True, blackjackPayout = 3 / 2\<rparr>"

definition stand_round :: "BlackjackGame \<Rightarrow> BlackjackGame" where
  "stand_round g = snd (stand (snd (startRound rnd_table 10 g)))"

definition g_last_round :: BlackjackGame where
  "g_last_round =
     snd (startRound rnd_table 10
       (stand_round (stand_round (stand_round (stand_round (stand_round
          (construct rnd_table opts1)))))))"

text \<open>
  In that round: a split, a double down that busts the first hand, and five splits of
  the second hand. SPLIT is legal again and the deck holds one card.
\<close>

definition g_short1 :: BlackjackGame where
  "g_short1 =
     snd (split (snd (split (snd (split (snd (split (snd (split
       (snd (doubleDown (snd (split g_last_round)))))))))))))"

text \<open>
  In that round: six splits of the first hand. SPLIT is legal again and the deck holds
  two cards, an Ace on top.
\<close>

definition g_short2 :: BlackjackGame where
  "g_short2 =
     snd (split (snd (split (snd (split (snd (split (snd (split
       (snd (split g_last_round)))))))))))"

section \<open>Properties of the hand value\<close>

lemma demote_soft_le_11:
  "demote sm0 n = (sm, aceCount) \<Longrightarrow> aceCount > 0 \<Longrightarrow>
   sm + 10 * int aceCount \<le> 21 \<Longrightarrow> sm \<le> 11"
  by (induction n arbitrary: sm0) (auto split: if_splits)

lemma isSoft_value_le_11:
  "isSoft (getHandValue hand) \<Longrightarrow> hv_value (getHandValue hand) \<le> 11"
  by (auto simp: getHandValue_def split: if_splits prod.splits)

text \<open>So the dealer never draws on a total of 17, whatever the option.\<close>

lemma dealer_stands_on_17:
  "hv_value (getHandValue (dealerHand g)) = 17 \<Longrightarrow> \<not> dealerMustDraw g"
  using isSoft_value_le_11[of "dealerHand g"] by (auto simp: dealerMustDraw_def Let_def)

section \<open>Frame lemmas and the invariant\<close>

lemma dealCard_Inr:
  "dealCard g = Inr (c, g1) \<Longrightarrow> deck g \<noteq> [] \<and> c = last (deck g) \<and> g1 = g\<lparr>deck := butlast (deck g)\<rparr>"
  by (auto simp: dealCard_def split: if_splits)

lemma dealCard_Inl:
  "dealCard g = Inl e \<Longrightarrow> deck g = [] \<and> e = DeckEmpty"
  by (auto simp: dealCard_def split: if_splits)

lemma dealerDraw_stop: "\<not> dealerMustDraw g \<Longrightarrow> dealerDraw g = (None, g)"
  by (subst dealerDraw.simps) simp

lemma dealerDraw_empty:
  "dealerMustDraw g \<Longrightarrow> deck g = [] \<Longrightarrow> dealerDraw g = (Some DeckEmpty, g)"
  by (subst dealerDraw.simps) (simp add: dealCard_def)

lemma dealerDraw_step:
  "dealerMustDraw g \<Longrightarrow> deck g \<noteq> [] \<Longrightarrow>
   dealerDraw g = dealerDraw (g\<lparr>deck := butlast (deck g), dealerHand := dealerHand g @ [last (deck g)]\<rparr>)"
  by (subst dealerDraw.simps) (simp add: dealCard_def)

lemma dealerDraw_frame:
  "phase (snd (dealerDraw g)) = phase g
   \<and> playerHands (snd (dealerDraw g)) = playerHands g
   \<and> activeHandIndex (snd (dealerDraw g)) = activeHandIndex g
   \<and> options (snd (dealerDraw g)) = options g"
proof (induction "length (deck g)" arbitrary: g)
  case 0
  then show ?case
    by (cases "dealerMustDraw g") (simp_all add: dealerDraw_stop dealerDraw_empty)
next
  case (Suc n)
  show ?case
  proof (cases "dealerMustDraw g")
    case False
    then show ?thesis by (simp add: dealerDraw_stop)
  next
    case True
    from Suc.hyps(2) have ne: "deck g \<noteq> []" by auto
    let ?g1 = "g\<lparr>deck := butlast (deck g), dealerHand := dealerHand g @ [last (deck g)]\<rparr>"
    from Suc.hyps(2) have "n = length (deck ?g1)" by simp
    from Suc.hyps(1)[OF this] show ?thesis
      by (simp add: dealerDraw_step[OF True ne])
  qed
qed

lemma resolveDealerTurn_phase:
  "phase (snd (resolveDealerTurn g)) \<noteq> PLAYER_TURN"
proof -
  have "phase (snd (dealerDraw (g\<lparr>phase := DEALER_TURN\<rparr>))) = DEALER_TURN"
    using dealerDraw_frame[of "g\<lparr>phase := DEALER_TURN\<rparr>"] by simp
  then show ?thesis
    by (auto simp: resolveDealerTurn_def evaluateResults_def Let_def split: prod.splits option.splits)
qed

lemma findIndex_bounds:
  "findIndex p i xs = Some j \<Longrightarrow> i \<le> j \<and> j < i + length xs"
  by (induction xs arbitrary: i) (fastforce split: if_splits)+


lemma moveToNextHandOrResolve_ok: "active_ok (snd (moveToNextHandOrResolve g))"
proof (cases "findIndex (\<lambda>hand index. index > activeHandIndex g \<and> status hand = ACTIVE)
             0 (playerHands g)")
  case None
  then show ?thesis
    using resolveDealerTurn_phase[of g]
    by (simp add: moveToNextHandOrResolve_def active_ok_def)
next
  case (Some j)
  from findIndex_bounds[OF Some] have "j < length (playerHands g)" by simp
  with Some show ?thesis
    by (simp add: moveToNextHandOrResolve_def active_ok_def)
qed

lemma getAvailableActions_PLAYER_TURN:
  "phase g = PLAYER_TURN \<Longrightarrow> activeHandIndex g < length (playerHands g) \<Longrightarrow>
   getAvailableActions g =
     Inr ([HIT, STAND]
          @ (if length (cards (playerHands g ! activeHandIndex g)) = 2 then [DOUBLE_DOWN] else [])
          @ (if length (cards (playerHands g ! activeHandIndex g)) = 2
                \<and> canSplit (playerHands g ! activeHandIndex g) then [SPLIT] else []))"
  by (simp add: getAvailableActions_def getActiveHand_def Let_def)

lemma getAvailableActions_other_phase:
  "phase g \<noteq> PLAYER_TURN \<Longrightarrow> getAvailableActions g = Inr []"
  by (simp add: getAvailableActions_def)

lemma getAvailableActions_no_hand:
  "phase g = PLAYER_TURN \<Longrightarrow> \<not> activeHandIndex g < length (playerHands g) \<Longrightarrow>
   getAvailableActions g = Inl TypeError"
  by (simp add: getAvailableActions_def getActiveHand_def)

lemma canPerformAction_True:
  assumes "canPerformAction a g = Inr True"
  shows "phase g = PLAYER_TURN \<and> activeHandIndex g < length (playerHands g)"
proof -
  have p: "phase g = PLAYER_TURN"
    using assms getAvailableActions_other_phase[of g]
    by (cases "phase g = PLAYER_TURN") (simp_all add: canPerformAction_def)
  moreover have "activeHandIndex g < length (playerHands g)"
    using assms p getAvailableActions_no_hand[of g]
    by (cases "activeHandIndex g < length (playerHands g)") (simp_all add: canPerformAction_def)
  ultimately show ?thesis by simp
qed

lemma canPerformAction_cases:
  obtains e where "canPerformAction a g = Inl e"
  | "canPerformAction a g = Inr False"
  | "canPerformAction a g = Inr True"
  by (cases "canPerformAction a g") auto


lemma hit_legal:
  assumes "canPerformAction HIT g = Inr True" and "deck g \<noteq> []"
  shows "hit g =
     (if hv_value (getHandValue (cards (playerHands g ! activeHandIndex g) @ [last (deck g)])) > 21
      then moveToNextHandOrResolve
             (g\<lparr>deck := butlast (deck g),
                playerHands := (playerHands g)
                  [activeHandIndex g := (playerHands g ! activeHandIndex g)
                     \<lparr>cards := cards (playerHands g ! activeHandIndex g) @ [last (deck g)],
                      status := BUST\<rparr>]\<rparr>)
      else (None, g\<lparr>deck := butlast (deck g),
                     playerHands := (playerHands g)
                       [activeHandIndex g := (playerHands g ! activeHandIndex g)
                          \<lparr>cards := cards (playerHands g ! activeHandIndex g) @ [last (deck g)]\<rparr>]\<rparr>))"
  using assms by (simp add: hit_def dealCard_def Let_def)

lemma hit_ok: "active_ok g \<Longrightarrow> active_ok (snd (hit g))"
proof (cases rule: canPerformAction_cases[of HIT g])
  case (1 e)
  assume "active_ok g"
  with 1 show ?thesis by (simp add: hit_def)
next
  case 2
  assume "active_ok g"
  with 2 show ?thesis by (simp add: hit_def)
next
  case 3
  assume ok: "active_ok g"
  note pt = canPerformAction_True[OF 3]
  show ?thesis
  proof (cases "deck g = []")
    case True
    with 3 ok show ?thesis by (simp add: hit_def dealCard_def)
  next
    case False
    show ?thesis
    proof (cases "hv_value (getHandValue
                    (cards (playerHands g ! activeHandIndex g) @ [last (deck g)])) > 21")
      case True
      then show ?thesis by (simp add: hit_legal[OF 3 False] moveToNextHandOrResolve_ok)
    next
      case False
      with pt show ?thesis by (simp add: hit_legal[OF 3 \<open>deck g \<noteq> []\<close>] active_ok_def)
    qed
  qed
qed

lemma stand_legal:
  assumes "canPerformAction STAND g = Inr True"
  shows "stand g = moveToNextHandOrResolve
           (g\<lparr>playerHands := (playerHands g)
               [activeHandIndex g := (playerHands g ! activeHandIndex g)\<lparr>status := STOOD\<rparr>]\<rparr>)"
  using assms by (simp add: stand_def Let_def)

lemma stand_ok: "active_ok g \<Longrightarrow> active_ok (snd (stand g))"
proof (cases rule: canPerformAction_cases[of STAND g])
  case (1 e)
  assume "active_ok g"
  with 1 show ?thesis by (simp add: stand_def)
next
  case 2
  assume "active_ok g"
  with 2 show ?thesis by (simp add: stand_def)
next
  case 3
  show ?thesis by (simp add: stand_legal[OF 3] moveToNextHandOrResolve_ok)
qed

lemma doubleDown_legal:
  assumes "canPerformAction DOUBLE_DOWN g = Inr True" and "deck g \<noteq> []"
  shows "doubleDown g =
     moveToNextHandOrResolve
       (g\<lparr>deck := butlast (deck g),
          playerHands := (playerHands g)
            [activeHandIndex g := (playerHands g ! activeHandIndex g)
               \<lparr>bet := bet (playerHands g ! activeHandIndex g) * 2,
                cards := cards (playerHands g ! activeHandIndex g) @ [last (deck g)],
                status :=
                  (if hv_value (getHandValue
                        (cards (playerHands g ! activeHandIndex g) @ [last (deck g)])) > 21
                   then BUST else STOOD)\<rparr>]\<rparr>)"
  using assms canPerformAction_True[OF assms(1)]
  by (simp add: doubleDown_def dealCard_def Let_def)

lemma doubleDown_ok: "active_ok g \<Longrightarrow> active_ok (snd (doubleDown g))"
proof (cases rule: canPerformAction_cases[of DOUBLE_DOWN g])
  case (1 e)
  assume "active_ok g"
  with 1 show ?thesis by (simp add: doubleDown_def)
next
  case 2
  assume "active_ok g"
  with 2 show ?thesis by (simp add: doubleDown_def)
next
  case 3
  note pt = canPerformAction_True[OF 3]
  show ?thesis
  proof (cases "deck g = []")
    case True
    with 3 pt show ?thesis by (simp add: doubleDown_def dealCard_def Let_def active_ok_def)
  next
    case False
    show ?thesis by (simp add: doubleDown_legal[OF 3 False] moveToNextHandOrResolve_ok)
  qed
qed


lemma split_legal_eq:
  assumes "canPerformAction SPLIT g = Inr True" and "2 \<le> length (deck g)"
  shows "split g =
     (None,
      g\<lparr>deck := butlast (butlast (deck g)),
        playerHands :=
          (take (activeHandIndex g + 1)
             ((playerHands g)
                [activeHandIndex g := (playerHands g ! activeHandIndex g)
                   \<lparr>cards := butlast (cards (playerHands g ! activeHandIndex g)) @ [last (deck g)]\<rparr>])
           @ [\<lparr>cards = [last (cards (playerHands g ! activeHandIndex g)),
                        last (butlast (deck g))],
               bet = bet (playerHands g ! activeHandIndex g),
               status = ACTIVE, result = PENDING\<rparr>]
           @ drop (activeHandIndex g + 1)
               ((playerHands g)
                  [activeHandIndex g := (playerHands g ! activeHandIndex g)
                     \<lparr>cards := butlast (cards (playerHands g ! activeHandIndex g)) @ [last (deck g)]\<rparr>]))
          [activeHandIndex g :=
             (if hv_value (getHandValue
                   (butlast (cards (playerHands g ! activeHandIndex g)) @ [last (deck g)])) = 21
              then (playerHands g ! activeHandIndex g)
                     \<lparr>cards := butlast (cards (playerHands g ! activeHandIndex g)) @ [last (deck g)],
                      status := STOOD\<rparr>
              else (playerHands g ! activeHandIndex g)
                     \<lparr>cards := butlast (cards (playerHands g ! activeHandIndex g)) @ [last (deck g)]\<rparr>)]\<rparr>)"
proof -
  from assms(2) have ne: "deck g \<noteq> []" and ne2: "butlast (deck g) \<noteq> []"
    by (auto simp: Suc_le_eq numeral_2_eq_2 length_greater_0_conv[symmetric] simp del: length_greater_0_conv)
  from canPerformAction_True[OF assms(1)] have i: "activeHandIndex g < length (playerHands g)" by simp
  show ?thesis
    using assms(1) ne ne2 i by (simp add: split_def dealCard_def Let_def)
qed


lemma split_frame:
  "phase (snd (split g)) = phase g
   \<and> activeHandIndex (snd (split g)) = activeHandIndex g
   \<and> length (playerHands g) \<le> length (playerHands (snd (split g)))"
proof (cases rule: canPerformAction_cases[of SPLIT g])
  case (1 e)
  then show ?thesis by (simp add: split_def)
next
  case 2
  then show ?thesis by (simp add: split_def)
next
  case 3
  show ?thesis
  proof (cases "deck g = []")
    case True
    with 3 show ?thesis by (simp add: split_def dealCard_def Let_def)
  next
    case False
    show ?thesis
    proof (cases "butlast (deck g) = []")
      case True
      with 3 False show ?thesis by (simp add: split_def dealCard_def Let_def)
    next
      case ne2: False
      with 3 False show ?thesis by (simp add: split_def dealCard_def Let_def)
    qed
  qed
qed

lemma split_ok: "active_ok g \<Longrightarrow> active_ok (snd (split g))"
  using split_frame[of g] by (auto simp: active_ok_def)

lemma resetGame_ok: "active_ok (resetGame rnd g)"
  by (simp add: active_ok_def resetGame_def)

lemma construct_ok: "active_ok (construct rnd opts)"
  by (simp add: construct_def resetGame_ok)

lemma startRound_phase_guard:
  "phase g \<noteq> BETTING \<Longrightarrow> phase g \<noteq> ROUND_OVER \<Longrightarrow> startRound rnd b g = (None, g)"
  by (simp add: startRound_def)

lemma startRound_bet_guard:
  "phase g = BETTING \<or> phase g = ROUND_OVER \<Longrightarrow> b \<le> 0 \<Longrightarrow>
   startRound rnd b g = (Some BetNotPositive, g)"
  by (auto simp: startRound_def)

lemma startRound_ok:
  assumes "active_ok g"
  shows "active_ok (snd (startRound rnd b g))"
proof (cases "phase g \<noteq> BETTING \<and> phase g \<noteq> ROUND_OVER")
  case True
  with assms show ?thesis by (simp add: startRound_phase_guard)
next
  case False
  then have ph: "phase g = BETTING \<or> phase g = ROUND_OVER" by simp
  show ?thesis
  proof (cases "b \<le> 0")
    case True
    with ph assms show ?thesis by (simp add: startRound_bet_guard)
  next
    case False
    define g0 where "g0 = (if 3 * int (length (deck g)) < numberOfDecks (options g) * 52
                   then g\<lparr>deck := createNewDeck rnd g\<rparr> else g)"
    have ph0: "phase g0 \<noteq> PLAYER_TURN" using ph by (auto simp: g0_def)
    have eq: "startRound rnd b g =
        (case dealCard g0 of Inl e \<Rightarrow> (Some e, g0) | Inr (c1, g1) \<Rightarrow>
            (case dealCard g1 of Inl e \<Rightarrow> (Some e, g1) | Inr (c2, g2) \<Rightarrow>
            (let g3 = g2\<lparr>playerHands :=
                          [\<lparr>cards = [c1, c2], bet = b, status = ACTIVE,
                            result = PENDING\<rparr>]\<rparr>
             in case dealCard g3 of Inl e \<Rightarrow> (Some e, g3) | Inr (c3, g4) \<Rightarrow>
                (case dealCard g4 of Inl e \<Rightarrow> (Some e, g4) | Inr (c4, g5) \<Rightarrow>
                (let g6 = g5\<lparr>dealerHand := [c3, c4], activeHandIndex := 0,
                              phase := PLAYER_TURN\<rparr>
                 in if hv_value (getHandValue [c1, c2]) = 21
                    then resolveDealerTurn
                           (g6\<lparr>playerHands :=
                                 [\<lparr>cards = [c1, c2], bet = b, status = BLACKJACK,
                                   result = PENDING\<rparr>]\<rparr>)
                    else (None, g6))))))"
      using ph False unfolding startRound_def g0_def Let_def by auto
    show ?thesis
      unfolding eq using ph0 resolveDealerTurn_phase
      by (auto simp: active_ok_def dealCard_def Let_def split: if_splits)
  qed
qed

lemma reachable_active_ok: "reachable g \<Longrightarrow> active_ok g"
  by (induction rule: reachable.induct)
     (simp_all add: construct_ok resetGame_ok startRound_ok hit_ok stand_ok doubleDown_ok split_ok)

lemma reachable_getAvailableActions:
  "reachable g \<Longrightarrow> \<exists>actions. getAvailableActions g = Inr actions"
  by (drule reachable_active_ok)
     (auto simp: active_ok_def getAvailableActions_def getActiveHand_def Let_def)

lemma evaluateResults_cards:
  "map cards (playerHands (evaluateResults g)) = map cards (playerHands g)"
  by (simp add: evaluateResults_def settleHand_def Let_def)

lemma resolveDealerTurn_cards:
  "map cards (playerHands (snd (resolveDealerTurn g))) = map cards (playerHands g)"
proof -
  have "playerHands (snd (dealerDraw (g\<lparr>phase := DEALER_TURN\<rparr>))) = playerHands g"
    using dealerDraw_frame[of "g\<lparr>phase := DEALER_TURN\<rparr>"] by simp
  then show ?thesis
    by (cases "dealerDraw (g\<lparr>phase := DEALER_TURN\<rparr>)")
       (auto simp: resolveDealerTurn_def evaluateResults_cards split: option.splits)
qed

lemma moveToNextHandOrResolve_cards:
  "map cards (playerHands (snd (moveToNextHandOrResolve g))) = map cards (playerHands g)"
  by (simp add: moveToNextHandOrResolve_def resolveDealerTurn_cards split: option.splits)

lemma hit_legal_cards:
  assumes "canPerformAction HIT g = Inr True" and "deck g \<noteq> []"
  shows "map cards (playerHands (snd (hit g)))
         = (map cards (playerHands g))
             [activeHandIndex g := cards (playerHands g ! activeHandIndex g) @ [last (deck g)]]"
  by (simp add: hit_legal[OF assms] moveToNextHandOrResolve_cards map_update)

lemma legal_SPLIT:
  assumes "getAvailableActions g = Inr actions" and "SPLIT \<in> set actions"
  shows "canPerformAction SPLIT g = Inr True"
    and "phase g = PLAYER_TURN"
    and "activeHandIndex g < length (playerHands g)"
    and "\<exists>c1 c2. cards (playerHands g ! activeHandIndex g) = [c1, c2]"
proof -
  show c: "canPerformAction SPLIT g = Inr True"
    using assms by (simp add: canPerformAction_def)
  from canPerformAction_True[OF c]
  show p: "phase g = PLAYER_TURN" and i: "activeHandIndex g < length (playerHands g)"
    by simp_all
  have "length (cards (playerHands g ! activeHandIndex g)) = 2"
    using assms getAvailableActions_PLAYER_TURN[OF p i] by (auto split: if_splits)
  then show "\<exists>c1 c2. cards (playerHands g ! activeHandIndex g) = [c1, c2]"
    by (auto simp: length_Suc_conv numeral_2_eq_2)
qed

lemma insert_after_nth:
  assumes "i < length xs"
  shows "length (take (i + 1) xs @ [y] @ drop (i + 1) xs) = length xs + 1"
    and "(take (i + 1) xs @ [y] @ drop (i + 1) xs) ! i = xs ! i"
    and "(take (i + 1) xs @ [y] @ drop (i + 1) xs) ! (i + 1) = y"
    and "take i (take (i + 1) xs @ [y] @ drop (i + 1) xs) = take i xs"
    and "drop (i + 2) (take (i + 1) xs @ [y] @ drop (i + 1) xs) = drop (i + 1) xs"
  using assms by (auto simp: nth_append min_def)

text \<open>What a legal \<open>split\<close> leaves behind when the deck holds two cards.\<close>

lemma split_legal_hands:
  assumes "getAvailableActions g = Inr actions"
    and "SPLIT \<in> set actions"
    and "2 \<le> length (deck g)"
  shows "fst (split g) = None"
    and "phase (snd (split g)) = PLAYER_TURN"
    and "activeHandIndex (snd (split g)) = activeHandIndex g"
    and "deck (snd (split g)) = butlast (butlast (deck g))"
    and "length (playerHands (snd (split g))) = length (playerHands g) + 1"
    and "take (activeHandIndex g) (playerHands (snd (split g)))
         = take (activeHandIndex g) (playerHands g)"
    and "drop (activeHandIndex g + 2) (playerHands (snd (split g)))
         = drop (activeHandIndex g + 1) (playerHands g)"
    and "playerHands (snd (split g)) ! activeHandIndex g
         = (playerHands g ! activeHandIndex g)
             \<lparr>cards := [hd (cards (playerHands g ! activeHandIndex g)), last (deck g)],
              status :=
                (if hv_value (getHandValue
                       [hd (cards (playerHands g ! activeHandIndex g)), last (deck g)]) = 21
                 then STOOD else status (playerHands g ! activeHandIndex g))\<rparr>"
    and "playerHands (snd (split g)) ! (activeHandIndex g + 1)
         = \<lparr>cards = [last (cards (playerHands g ! activeHandIndex g)), last (butlast (deck g))],
            bet = bet (playerHands g ! activeHandIndex g),
            status = ACTIVE, result = PENDING\<rparr>"
proof -
  let ?i = "activeHandIndex g"
  let ?h = "playerHands g ! ?i"
  note legal = legal_SPLIT[OF assms(1,2)]
  from legal(4) obtain c1 c2 where cs: "cards ?h = [c1, c2]" by blast
  let ?h1 = "?h\<lparr>cards := [c1, last (deck g)]\<rparr>"
  let ?new = "\<lparr>cards = [c2, last (butlast (deck g))], bet = bet ?h,
               status = ACTIVE, result = PENDING\<rparr>"
  let ?xs = "(playerHands g)[?i := ?h1]"
  let ?h2 = "if hv_value (getHandValue [c1, last (deck g)]) = 21
             then ?h1\<lparr>status := STOOD\<rparr> else ?h1"
  have ixs: "?i < length ?xs" using legal(3) by simp
  have eq: "split g = (None, g\<lparr>deck := butlast (butlast (deck g)),
               playerHands := (take (?i + 1) ?xs @ [?new] @ drop (?i + 1) ?xs)[?i := ?h2]\<rparr>)"
    using cs by (simp add: split_legal_eq[OF legal(1) assms(3)])
  note ins = insert_after_nth[OF ixs, of ?new]
  have hands: "playerHands (snd (split g))
                 = (take (?i + 1) ?xs @ [?new] @ drop (?i + 1) ?xs)[?i := ?h2]"
    by (simp add: eq)
  show "fst (split g) = None" by (simp add: eq)
  show "phase (snd (split g)) = PLAYER_TURN" using legal(2) by (simp add: eq)
  show "activeHandIndex (snd (split g)) = ?i" by (simp add: eq)
  show "deck (snd (split g)) = butlast (butlast (deck g))" by (simp add: eq)
  show "length (playerHands (snd (split g))) = length (playerHands g) + 1"
    unfolding hands using ins(1) by simp
  show "take ?i (playerHands (snd (split g))) = take ?i (playerHands g)"
    unfolding hands using ins(4) by simp
  show "drop (?i + 2) (playerHands (snd (split g))) = drop (?i + 1) (playerHands g)"
    unfolding hands using ins(5) by simp
  have "playerHands (snd (split g)) ! ?i = ?h2"
    unfolding hands using ins(1) legal(3) by simp
  then show "playerHands (snd (split g)) ! ?i
         = ?h\<lparr>cards := [hd (cards ?h), last (deck g)],
              status := (if hv_value (getHandValue [hd (cards ?h), last (deck g)]) = 21
                 then STOOD else status ?h)\<rparr>"
    by (simp add: cs)
  have "playerHands (snd (split g)) ! (?i + 1) = ?new"
    unfolding hands using ins(3) by simp
  then show "playerHands (snd (split g)) ! (?i + 1)
         = \<lparr>cards = [last (cards ?h), last (butlast (deck g))],
            bet = bet ?h, status = ACTIVE, result = PENDING\<rparr>"
    by (simp add: cs)
qed

lemma two_card_21_no_bust:
  "hv_value (getHandValue [a, b]) = 21 \<Longrightarrow> hv_value (getHandValue [a, b, c]) \<le> 21"
  by (auto simp: getHandValue_def split: if_splits)

section \<open>The store model against the value model\<close>

lemma map_nth_append_in_range:
  "list_all (\<lambda>r. r < length st) rs \<Longrightarrow> map (\<lambda>r. (st @ ext) ! r) rs = map (\<lambda>r. st ! r) rs"
  by (induction rs) (simp_all add: nth_append)

lemma copyCards_eq:
  "list_all (\<lambda>r. r < length st) rs \<Longrightarrow>
   copyCards st rs = (st @ map (\<lambda>r. st ! r) rs, [length st ..< length st + length rs])"
proof (induction rs arbitrary: st)
  case Nil
  then show ?case by simp
next
  case (Cons r rs)
  from Cons.prems have r: "r < length st" and rs: "list_all (\<lambda>r. r < length st) rs"
    by simp_all
  from rs have rs': "list_all (\<lambda>q. q < length (st @ [st ! r])) rs"
    by (induction rs) simp_all
  have m: "map (\<lambda>q. (st @ [st ! r]) ! q) rs = map (\<lambda>q. st ! q) rs"
    using rs by (rule map_nth_append_in_range)
  have u: "[length st ..< length st + length (r # rs)]
           = length st # [length (st @ [st ! r]) ..< length (st @ [st ! r]) + length rs]"
    by (simp add: upt_conv_Cons del: upt_Suc)
  show ?case
    unfolding u by (simp add: Cons.IH[OF rs'] m del: upt_Suc)
qed

lemma readHand_append:
  "list_all (\<lambda>r. r < length st) (r_cards h) \<Longrightarrow> readHand (st @ ext) h = readHand st h"
  by (simp add: readHand_def map_nth_append_in_range)

lemma readHand_copy:
  "list_all (\<lambda>r. r < length st) (r_cards h) \<Longrightarrow>
   readHand (st @ map (\<lambda>r. st ! r) (r_cards h) @ ext)
     (h\<lparr>r_cards := [length st ..< length st + length (r_cards h)]\<rparr>) = readHand st h"
proof -
  have "map (\<lambda>r. (st @ map (\<lambda>r. st ! r) (r_cards h) @ ext) ! r)
          [length st ..< length st + length (r_cards h)]
        = map (\<lambda>r. st ! r) (r_cards h)"
    by (rule nth_equalityI) (simp_all add: nth_append)
  then show ?thesis by (simp add: readHand_def)
qed

lemma copyHands_props:
  assumes "list_all (\<lambda>h. list_all (\<lambda>r. r < length st) (r_cards h)) hs"
    and "copyHands st hs = (st1, hs1)"
  shows "(\<exists>ext. st1 = st @ ext)
       \<and> map (readHand st1) hs1 = map (readHand st) hs
       \<and> list_all (\<lambda>h. list_all (\<lambda>r. length st \<le> r \<and> r < length st1) (r_cards h)) hs1"
  using assms
proof (induction hs arbitrary: st st1 hs1)
  case Nil
  then show ?case by simp
next
  case (Cons h hs)
  let ?st' = "st @ map (\<lambda>r. st ! r) (r_cards h)"
  let ?cs = "[length st ..< length st + length (r_cards h)]"
  from Cons.prems(1) have h: "list_all (\<lambda>r. r < length st) (r_cards h)"
    and hs: "list_all (\<lambda>h. list_all (\<lambda>r. r < length st) (r_cards h)) hs"
    by simp_all
  from hs have hs': "list_all (\<lambda>h. list_all (\<lambda>r. r < length ?st') (r_cards h)) hs"
    by (auto simp: list_all_iff intro: trans_less_add1)
  obtain st2 hs2 where c: "copyHands ?st' hs = (st2, hs2)"
    by (cases "copyHands ?st' hs")
  from Cons.prems(2) c have st1: "st1 = st2" and hs1: "hs1 = h\<lparr>r_cards := ?cs\<rparr> # hs2"
    by (simp_all add: copyCards_eq[OF h])
  from Cons.IH[OF hs' c] obtain ext where ext: "st2 = ?st' @ ext"
    and rd: "map (readHand st2) hs2 = map (readHand ?st') hs"
    and fr: "list_all (\<lambda>h. list_all (\<lambda>r. length ?st' \<le> r \<and> r < length st2) (r_cards h)) hs2"
    by blast
  have 1: "\<exists>ext. st1 = st @ ext" using ext st1 by simp
  have "map (readHand ?st') hs = map (readHand st) hs"
    using hs by (induction hs) (simp_all add: readHand_append)
  moreover have "readHand st2 (h\<lparr>r_cards := ?cs\<rparr>) = readHand st h"
    using readHand_copy[OF h, of ext] ext by simp
  ultimately have 2: "map (readHand st1) hs1 = map (readHand st) (h # hs)"
    using rd st1 hs1 by simp
  have "list_all (\<lambda>r. length st \<le> r \<and> r < length st1) ?cs"
    using ext st1 by (simp add: list_all_iff)
  moreover have "list_all (\<lambda>h. list_all (\<lambda>r. length st \<le> r \<and> r < length st1) (r_cards h)) hs2"
    using fr st1 by (fastforce simp: list_all_iff)
  ultimately have 3: "list_all (\<lambda>h. list_all (\<lambda>r. length st \<le> r \<and> r < length st1) (r_cards h)) hs1"
    using hs1 by simp
  from 1 2 3 show ?case by simp
qed

lemma readEngine_append:
  "refs_ok st e \<Longrightarrow> readEngine (st @ ext) e = readEngine st e"
proof -
  assume ok: "refs_ok st e"
  then have "map (readHand (st @ ext)) (e_playerHands e) = map (readHand st) (e_playerHands e)"
    unfolding refs_ok_def by (induction "e_playerHands e") (auto simp: readHand_append list_all_iff)
  with ok show ?thesis
    by (simp add: readEngine_def refs_ok_def map_nth_append_in_range)
qed

text \<open>
  On a store that holds the engine's objects, \<open>getStateRefs\<close> throws where \<open>getState\<close>
  does, and otherwise its snapshot reads as the snapshot of \<open>getState\<close>, while the engine
  reads as before.
\<close>

lemma getStateRefs_refines:
  assumes "refs_ok st e"
  shows "(case getStateRefs st e of
            Inl err \<Rightarrow> getState (readEngine st e) = Inl err
          | Inr (st1, s) \<Rightarrow>
              getState (readEngine st e) = Inr (readSnapshot st1 s)
              \<and> readEngine st1 e = readEngine st e)"
proof -
  obtain st1 hs1 where c: "copyHands st (e_playerHands e) = (st1, hs1)"
    by (cases "copyHands st (e_playerHands e)")
  from assms have "list_all (\<lambda>h. list_all (\<lambda>r. r < length st) (r_cards h)) (e_playerHands e)"
    by (simp add: refs_ok_def)
  from copyHands_props[OF this c] obtain ext where ext: "st1 = st @ ext"
    and rd: "map (readHand st1) hs1 = map (readHand st) (e_playerHands e)"
    by blast
  have re: "readEngine st1 e = readEngine st e"
    unfolding ext using assms by (rule readEngine_append)
  have dh: "map (\<lambda>r. st1 ! r) (e_dealerHand e) = map (\<lambda>r. st ! r) (e_dealerHand e)"
    unfolding ext using assms by (simp add: refs_ok_def map_nth_append_in_range)
  have sel: "deck (readEngine st e) = map (\<lambda>r. st ! r) (e_deck e)"
    "playerHands (readEngine st e) = map (readHand st) (e_playerHands e)"
    "dealerHand (readEngine st e) = map (\<lambda>r. st ! r) (e_dealerHand e)"
    "activeHandIndex (readEngine st e) = e_activeHandIndex e"
    "phase (readEngine st e) = e_phase e"
    by (simp_all add: readEngine_def)
  show ?thesis
  proof (cases "e_dealerHand e")
    case Nil
    then show ?thesis by (simp add: getStateRefs_def c getState_def sel)
  next
    case (Cons u us)
    with dh have u: "st1 ! u = st ! u" by simp
    show ?thesis
    proof (cases "getAvailableActions (readEngine st e)")
      case (Inl err)
      with Cons show ?thesis
        by (simp add: getStateRefs_def c getState_def sel)
    next
      case (Inr actions)
      have "getState (readEngine st e) = Inr (readSnapshot st1
              \<lparr>sr_deckSize = length (e_deck e),
               sr_playerHands = hs1,
               sr_dealerHand = (if e_phase e = PLAYER_TURN then [u] else e_dealerHand e),
               sr_activeHandIndex = e_activeHandIndex e,
               sr_phase = e_phase e,
               sr_dealerUpCardValue = hv_value (getHandValue [st ! u]),
               sr_availableActions = actions\<rparr>)"
        using Inr Cons dh u rd sel
        by (simp add: getState_def readSnapshot_def)
      with Inr Cons re show ?thesis
        by (simp add: getStateRefs_def c)
    qed
  qed
qed

text \<open>
  The Card objects of the snapshot's player hands are new; those of its dealer hand are
  the engine's own.
\<close>

lemma getStateRefs_sharing:
  assumes "refs_ok st e" and "getStateRefs st e = Inr (st1, s)"
  shows "list_all (\<lambda>h. list_all (\<lambda>r. length st \<le> r) (r_cards h)) (sr_playerHands s)"
    and "set (sr_dealerHand s) \<subseteq> set (e_dealerHand e)"
    and "sr_dealerHand s \<noteq> []"
proof -
  obtain st2 hs1 where c: "copyHands st (e_playerHands e) = (st2, hs1)"
    by (cases "copyHands st (e_playerHands e)")
  from assms(1) have "list_all (\<lambda>h. list_all (\<lambda>r. r < length st) (r_cards h)) (e_playerHands e)"
    by (simp add: refs_ok_def)
  from copyHands_props[OF this c]
  have fr: "list_all (\<lambda>h. list_all (\<lambda>r. length st \<le> r \<and> r < length st2) (r_cards h)) hs1"
    by blast
  from assms(2) c have s: "sr_playerHands s = hs1"
    by (auto simp: getStateRefs_def split: list.splits sum.splits)
  from fr show "list_all (\<lambda>h. list_all (\<lambda>r. length st \<le> r) (r_cards h)) (sr_playerHands s)"
    unfolding s by (auto simp: list_all_iff)
  from assms(2) c show "set (sr_dealerHand s) \<subseteq> set (e_dealerHand e)"
    by (auto simp: getStateRefs_def split: list.splits sum.splits if_splits)
  from assms(2) c show "sr_dealerHand s \<noteq> []"
    by (auto simp: getStateRefs_def split: list.splits sum.splits if_splits)
qed

lemma map_nth_update_fresh:
  "list_all (\<lambda>q. q < n) rs \<Longrightarrow> n \<le> r \<Longrightarrow> map (\<lambda>q. st[r := x] ! q) rs = map (\<lambda>q. st ! q) rs"
  by (induction rs) simp_all

text \<open>A write through a card of the snapshot's player hands does not reach the engine.\<close>

lemma snapshot_player_card_write:
  assumes "refs_ok st e" and "length st \<le> r"
  shows "readEngine (writeRank st1 r v) e = readEngine st1 e"
proof -
  have "readHand (writeRank st1 r v) h = readHand st1 h" if "h \<in> set (e_playerHands e)" for h
  proof -
    from that assms(1) have "list_all (\<lambda>q. q < length st) (r_cards h)"
      by (simp add: refs_ok_def list_all_iff)
    from map_nth_update_fresh[OF this assms(2)] show ?thesis
      by (simp add: readHand_def writeRank_def)
  qed
  then have "map (readHand (writeRank st1 r v)) (e_playerHands e) = map (readHand st1) (e_playerHands e)"
    by simp
  with assms show ?thesis
    by (simp add: readEngine_def refs_ok_def writeRank_def map_nth_update_fresh[of "length st"])
qed

text \<open>A write through the first card of the snapshot's dealer hand does.\<close>

lemma snapshot_dealer_card_write:
  assumes "refs_ok st e" and "getStateRefs st e = Inr (st1, s)"
  shows "rank (hd (dealerHand (readEngine (writeRank st1 (hd (sr_dealerHand s)) v) e))) = v"
proof -
  obtain st2 hs1 where c: "copyHands st (e_playerHands e) = (st2, hs1)"
    by (cases "copyHands st (e_playerHands e)")
  from assms(1) have "list_all (\<lambda>h. list_all (\<lambda>r. r < length st) (r_cards h)) (e_playerHands e)"
    by (simp add: refs_ok_def)
  from copyHands_props[OF this c] obtain ext where ext: "st2 = st @ ext" by blast
  from assms(2) c obtain u us where d: "e_dealerHand e = u # us"
    by (cases "e_dealerHand e") (auto simp: getStateRefs_def)
  from assms(2) c d have s: "hd (sr_dealerHand s) = u" and st1: "st1 = st2"
    by (auto simp: getStateRefs_def split: sum.splits if_splits)
  from assms(1) d have "u < length st" by (simp add: refs_ok_def)
  with ext st1 have "u < length st1" by simp
  then show ?thesis
    by (simp add: s readEngine_def d writeRank_def)
qed

section \<open>A round that runs the deck down\<close>

lemma reachable_stand_round: "reachable g \<Longrightarrow> reachable (stand_round g)"
  unfolding stand_round_def by (intro r_stand r_startRound)

lemma reachable_g_last_round: "reachable g_last_round"
  unfolding g_last_round_def
  by (intro r_startRound reachable_stand_round r_construct)

lemma reachable_g_short1: "reachable g_short1"
  unfolding g_short1_def
  by (intro r_split r_doubleDown reachable_g_last_round)

lemma reachable_g_short2: "reachable g_short2"
  unfolding g_short2_def
  by (intro r_split reachable_g_last_round)

lemma g_last_round_eq:
  "g_last_round =
   \<lparr>deck =
       [\<lparr>rank = 5, suit = 3\<rparr>, \<lparr>rank = 1, suit = 3\<rparr>, \<lparr>rank = 11, suit = 0\<rparr>,
        \<lparr>rank = 10, suit = 2\<rparr>, \<lparr>rank = 10, suit = 0\<rparr>, \<lparr>rank = 13, suit = 0\<rparr>,
        \<lparr>rank = 12, suit = 2\<rparr>, \<lparr>rank = 13, suit = 3\<rparr>, \<lparr>rank = 10, suit = 1\<rparr>,
        \<lparr>rank = 12, suit = 3\<rparr>, \<lparr>rank = 13, suit = 2\<rparr>, \<lparr>rank = 12, suit = 1\<rparr>,
        \<lparr>rank = 11, suit = 3\<rparr>, \<lparr>rank = 13, suit = 1\<rparr>],
       playerHands =
         [\<lparr>cards = [\<lparr>rank = 10, suit = 3\<rparr>, \<lparr>rank = 11, suit = 1\<rparr>], bet = 10,
             status = ACTIVE, result = PENDING\<rparr>],
       dealerHand = [\<lparr>rank = 12, suit = 0\<rparr>, \<lparr>rank = 11, suit = 2\<rparr>],
       activeHandIndex = 0, phase = PLAYER_TURN,
       options =
         \<lparr>numberOfDecks = 1, dealerHitsOnSoft17 = True,
            blackjackPayout = 3 / 2\<rparr>\<rparr>"
  by code_simp

lemma g_short1_eq:
  "g_short1 =
   \<lparr>deck = [\<lparr>rank = 5, suit = 3\<rparr>],
       playerHands =
         [\<lparr>cards =
             [\<lparr>rank = 10, suit = 3\<rparr>, \<lparr>rank = 13, suit = 1\<rparr>,
              \<lparr>rank = 12, suit = 1\<rparr>],
             bet = 20, status = BUST, result = PENDING\<rparr>,
          \<lparr>cards = [\<lparr>rank = 11, suit = 1\<rparr>, \<lparr>rank = 11, suit = 0\<rparr>], bet = 10,
             status = ACTIVE, result = PENDING\<rparr>,
          \<lparr>cards = [\<lparr>rank = 10, suit = 0\<rparr>, \<lparr>rank = 1, suit = 3\<rparr>], bet = 10,
             status = ACTIVE, result = PENDING\<rparr>,
          \<lparr>cards = [\<lparr>rank = 12, suit = 2\<rparr>, \<lparr>rank = 10, suit = 2\<rparr>], bet = 10,
             status = ACTIVE, result = PENDING\<rparr>,
          \<lparr>cards = [\<lparr>rank = 10, suit = 1\<rparr>, \<lparr>rank = 13, suit = 0\<rparr>], bet = 10,
             status = ACTIVE, result = PENDING\<rparr>,
          \<lparr>cards = [\<lparr>rank = 13, suit = 2\<rparr>, \<lparr>rank = 13, suit = 3\<rparr>], bet = 10,
             status = ACTIVE, result = PENDING\<rparr>,
          \<lparr>cards = [\<lparr>rank = 11, suit = 3\<rparr>, \<lparr>rank = 12, suit = 3\<rparr>], bet = 10,
             status = ACTIVE, result = PENDING\<rparr>],
       dealerHand = [\<lparr>rank = 12, suit = 0\<rparr>, \<lparr>rank = 11, suit = 2\<rparr>],
       activeHandIndex = 1, phase = PLAYER_TURN,
       options =
         \<lparr>numberOfDecks = 1, dealerHitsOnSoft17 = True,
            blackjackPayout = 3 / 2\<rparr>\<rparr>"
  by code_simp

lemma g_short2_eq:
  "g_short2 =
   \<lparr>deck = [\<lparr>rank = 5, suit = 3\<rparr>, \<lparr>rank = 1, suit = 3\<rparr>],
       playerHands =
         [\<lparr>cards = [\<lparr>rank = 10, suit = 3\<rparr>, \<lparr>rank = 10, suit = 2\<rparr>], bet = 10,
             status = ACTIVE, result = PENDING\<rparr>,
          \<lparr>cards = [\<lparr>rank = 13, suit = 0\<rparr>, \<lparr>rank = 11, suit = 0\<rparr>], bet = 10,
             status = ACTIVE, result = PENDING\<rparr>,
          \<lparr>cards = [\<lparr>rank = 13, suit = 3\<rparr>, \<lparr>rank = 10, suit = 0\<rparr>], bet = 10,
             status = ACTIVE, result = PENDING\<rparr>,
          \<lparr>cards = [\<lparr>rank = 12, suit = 3\<rparr>, \<lparr>rank = 12, suit = 2\<rparr>], bet = 10,
             status = ACTIVE, result = PENDING\<rparr>,
          \<lparr>cards = [\<lparr>rank = 12, suit = 1\<rparr>, \<lparr>rank = 10, suit = 1\<rparr>], bet = 10,
             status = ACTIVE, result = PENDING\<rparr>,
          \<lparr>cards = [\<lparr>rank = 13, suit = 1\<rparr>, \<lparr>rank = 13, suit = 2\<rparr>], bet = 10,
             status = ACTIVE, result = PENDING\<rparr>,
          \<lparr>cards = [\<lparr>rank = 11, suit = 1\<rparr>, \<lparr>rank = 11, suit = 3\<rparr>], bet = 10,
             status = ACTIVE, result = PENDING\<rparr>],
       dealerHand = [\<lparr>rank = 12, suit = 0\<rparr>, \<lparr>rank = 11, suit = 2\<rparr>],
       activeHandIndex = 0, phase = PLAYER_TURN,
       options =
         \<lparr>numberOfDecks = 1, dealerHitsOnSoft17 = True,
            blackjackPayout = 3 / 2\<rparr>\<rparr>"
  by code_simp

text \<open>A legal \<open>hit\<close> on an empty deck throws and changes nothing.\<close>

lemma hit_legal_empty:
  "canPerformAction HIT g = Inr True \<Longrightarrow> deck g = [] \<Longrightarrow> hit g = (Some DeckEmpty, g)"
  by (simp add: hit_def dealCard_def)

text \<open>A legal \<open>split\<close> on a deck of fewer than two cards throws and inserts no hand.\<close>

lemma split_short_deck:
  assumes "canPerformAction SPLIT g = Inr True" and "length (deck g) < 2"
  shows "fst (split g) = Some DeckEmpty"
    and "length (playerHands (snd (split g))) = length (playerHands g)"
proof -
  have "fst (split g) = Some DeckEmpty
        \<and> length (playerHands (snd (split g))) = length (playerHands g)"
  proof (cases "deck g = []")
    case True
    with assms(1) show ?thesis by (simp add: split_def dealCard_def Let_def)
  next
    case False
    with assms(2) have "butlast (deck g) = []"
      by (cases "deck g") auto
    with assms(1) False show ?thesis by (simp add: split_def dealCard_def Let_def)
  qed
  then show "fst (split g) = Some DeckEmpty"
    and "length (playerHands (snd (split g))) = length (playerHands g)"
    by simp_all
qed

text \<open>\<open>canSplit\<close> reads the ranks of the cards only.\<close>

lemma canSplit_ranks:
  "map rank (cards h') = map rank (cards h) \<Longrightarrow> canSplit h' = canSplit h"
  by (auto simp: canSplit_def Let_def split: list.splits)

section \<open>The claims\<close>

text \<open>
  Claim C1. The claim asks for \<open>isSoft = True\<close> on Ace-King and on Ace-Ace. The source
  computes the flag as \<open>aceCount > 0 && sum + 10 * aceCount <= 21\<close> on a sum that already
  counts each remaining Ace as 11, so it returns total 21 and total 12 with
  \<open>isSoft = False\<close> on these two hands.
\<close>

theorem getHandValue_ace_hands_not_soft:
  "getHandValue [\<lparr>rank = 1, suit = 0\<rparr>, \<lparr>rank = 13, suit = 0\<rparr>]
     = \<lparr>hv_value = 21, isSoft = False\<rparr>
   \<and> getHandValue [\<lparr>rank = 1, suit = 0\<rparr>, \<lparr>rank = 1, suit = 1\<rparr>]
     = \<lparr>hv_value = 12, isSoft = False\<rparr>"
  by (simp add: getHandValue_def)

text \<open>
  Claim C2. Dealer resolution draws while the total is below 17, or is 17 on a soft hand
  with \<open>dealerHitsOnSoft17\<close>; the claim concludes that on Ace-Six with the option set the
  dealer draws at least one card. In the source \<open>getHandValue\<close> returns
  \<open>isSoft = False\<close> on Ace-Six, so the loop condition is false at once: whatever the
  option, the call returns without an error, the dealer's hand and the deck are as they
  were, and the round is settled.
\<close>

theorem resolveDealerTurn_soft17_draws_no_card:
  "fst (resolveDealerTurn (g\<lparr>dealerHand := [\<lparr>rank = 1, suit = s1\<rparr>, \<lparr>rank = 6, suit = s2\<rparr>]\<rparr>)) = None
   \<and> dealerHand (snd (resolveDealerTurn
          (g\<lparr>dealerHand := [\<lparr>rank = 1, suit = s1\<rparr>, \<lparr>rank = 6, suit = s2\<rparr>]\<rparr>)))
       = [\<lparr>rank = 1, suit = s1\<rparr>, \<lparr>rank = 6, suit = s2\<rparr>]
   \<and> deck (snd (resolveDealerTurn
          (g\<lparr>dealerHand := [\<lparr>rank = 1, suit = s1\<rparr>, \<lparr>rank = 6, suit = s2\<rparr>]\<rparr>))) = deck g
   \<and> phase (snd (resolveDealerTurn
          (g\<lparr>dealerHand := [\<lparr>rank = 1, suit = s1\<rparr>, \<lparr>rank = 6, suit = s2\<rparr>]\<rparr>))) = ROUND_OVER"
proof -
  let ?g = "g\<lparr>dealerHand := [\<lparr>rank = 1, suit = s1\<rparr>, \<lparr>rank = 6, suit = s2\<rparr>], phase := DEALER_TURN\<rparr>"
  have "getHandValue (dealerHand ?g) = \<lparr>hv_value = 17, isSoft = False\<rparr>"
    by (simp add: getHandValue_def)
  then have "\<not> dealerMustDraw ?g"
    by (simp add: dealerMustDraw_def)
  then have "dealerDraw ?g = (None, ?g)"
    by (rule dealerDraw_stop)
  then show ?thesis
    by (simp add: resolveDealerTurn_def evaluateResults_def Let_def)
qed

text \<open>
  Claim C3. The claim says that \<open>getState()\<close> after \<open>resetGame()\<close> succeeds. In the
  source \<open>resetGame\<close> empties the dealer's hand and \<open>getState\<close> computes
  \<open>getHandValue([this.dealerHand[0]])\<close>, which reads \<open>rank\<close> of \<open>undefined\<close>: the call
  throws a TypeError, after \<open>resetGame\<close> and after the constructor alike.
\<close>

theorem getState_after_resetGame_throws:
  "getState (resetGame rnd g) = Inl TypeError \<and> getState (construct rnd opts) = Inl TypeError"
  by (simp add: getState_def resetGame_def construct_def)

text \<open>
  Claim C4. The claim says that no mutation of a snapshot, the Card objects of
  \<open>dealerHand\<close> included, changes the engine. In the source \<open>playerHands\<close> is copied
  through JSON, but \<open>dealerHand\<close> is \<open>[...this.dealerHand]\<close> (or \<open>[this.dealerHand[0]]\<close>),
  a new array of the engine's own Card objects. On the store \<open>store0\<close> and the engine
  \<open>engine0\<close>, \<open>getState\<close> returns a snapshot whose dealer hand holds the engine's objects 0
  and 1: setting \<open>rank\<close> of the snapshot's first dealer card to 1 turns the engine's
  dealer hand from 10-8 into Ace-8, while the same write to the snapshot's first player
  card leaves the engine's player hands as they were.
\<close>

theorem getState_shares_dealer_cards:
  "getStateRefs store0 engine0 = Inr (store1, snapshot1)
   \<and> dealerHand (readEngine store1 engine0) = [\<lparr>rank = 10, suit = 1\<rparr>, \<lparr>rank = 8, suit = 1\<rparr>]
   \<and> dealerHand (readEngine (writeRank store1 (sr_dealerHand snapshot1 ! 0) 1) engine0)
       = [\<lparr>rank = 1, suit = 1\<rparr>, \<lparr>rank = 8, suit = 1\<rparr>]
   \<and> playerHands (readEngine (writeRank store1 (r_cards (sr_playerHands snapshot1 ! 0) ! 0) 1)
         engine0)
       = playerHands (readEngine store1 engine0)"
  by (simp add: getStateRefs_def store0_def engine0_def store1_def snapshot1_def
        readEngine_def readHand_def writeRank_def getAvailableActions_def getHandValue_def)

text \<open>
  Claim C5. In every state in which the legal actions are defined, a call of \<open>hit\<close>,
  \<open>stand\<close>, \<open>doubleDown\<close> or \<open>split\<close> whose action is not among them throws nothing
  and returns the engine unchanged. (By \<open>reachable_getAvailableActions\<close> the legal
  actions are defined in every state the public methods can produce.)
\<close>

theorem illegal_action_is_silent_noop:
  assumes "getAvailableActions g = Inr actions"
  shows "(HIT \<notin> set actions \<longrightarrow> hit g = (None, g))
       \<and> (STAND \<notin> set actions \<longrightarrow> stand g = (None, g))
       \<and> (DOUBLE_DOWN \<notin> set actions \<longrightarrow> doubleDown g = (None, g))
       \<and> (SPLIT \<notin> set actions \<longrightarrow> split g = (None, g))"
  using assms
  by (simp add: hit_def stand_def doubleDown_def split_def canPerformAction_def)

theorem illegal_action_is_silent_noop_witness:
  "getAvailableActions g_over = Inr []
   \<and> HIT \<notin> set [] \<and> STAND \<notin> set [] \<and> DOUBLE_DOWN \<notin> set [] \<and> SPLIT \<notin> set []
   \<and> hit g_over = (None, g_over) \<and> stand g_over = (None, g_over)
   \<and> doubleDown g_over = (None, g_over) \<and> split g_over = (None, g_over)
   \<and> getAvailableActions g_three = Inr [HIT, STAND]
   \<and> DOUBLE_DOWN \<notin> set [HIT, STAND] \<and> SPLIT \<notin> set [HIT, STAND]
   \<and> doubleDown g_three = (None, g_three) \<and> split g_three = (None, g_three)"
proof -
  have a: "getAvailableActions g_over = Inr []"
    by (simp add: getAvailableActions_def g_over_def)
  have b: "getAvailableActions g_three = Inr [HIT, STAND]"
    by (simp add: getAvailableActions_def getActiveHand_def g_three_def g_turn_def)
  from illegal_action_is_silent_noop[OF a] illegal_action_is_silent_noop[OF b] a b
  show ?thesis by simp
qed

text \<open>
  Claim C6, as stated: for every state and every bet \<open>\<le> 0\<close>, \<open>startRound\<close> throws. It
  does not during the player's turn: the phase guard comes first and returns silently.
\<close>

theorem startRound_bad_bet_in_PLAYER_TURN_no_error:
  "(0::int) \<le> 0 \<and> startRound id 0 g_turn = (None, g_turn)
   \<and> fst (startRound id 0 g_turn) \<noteq> Some BetNotPositive"
  by (simp add: startRound_def g_turn_def)

text \<open>
  Claim C6, amended. In phase BETTING or ROUND_OVER a bet \<open>\<le> 0\<close> makes \<open>startRound\<close>
  throw with the engine unchanged; in phase PLAYER_TURN or DEALER_TURN \<open>startRound\<close> is a
  silent no-op whatever the bet, so a round is only begun from BETTING or ROUND_OVER.
\<close>

theorem startRound_guards:
  "((phase g = BETTING \<or> phase g = ROUND_OVER) \<and> betAmount \<le> 0
      \<longrightarrow> startRound rnd betAmount g = (Some BetNotPositive, g))
   \<and> (phase g \<noteq> BETTING \<and> phase g \<noteq> ROUND_OVER
      \<longrightarrow> startRound rnd betAmount g = (None, g))"
  by (simp add: startRound_phase_guard startRound_bet_guard)

theorem startRound_guards_witness:
  "(phase g_betting = BETTING \<or> phase g_betting = ROUND_OVER) \<and> (-5::int) \<le> 0
   \<and> startRound id (-5) g_betting = (Some BetNotPositive, g_betting)
   \<and> phase g_turn \<noteq> BETTING \<and> phase g_turn \<noteq> ROUND_OVER
   \<and> startRound id 7 g_turn = (None, g_turn)"
proof -
  have a: "phase g_betting = BETTING" by (simp add: g_betting_def)
  have b: "phase g_turn = PLAYER_TURN" by (simp add: g_turn_def)
  from startRound_guards[of g_betting "-5" id] startRound_guards[of g_turn 7 id] a b
  show ?thesis by simp
qed

text \<open>
  Claim C7, as stated: after every legal \<open>split\<close> there is one hand more. The engine
  reaches \<open>g_short1\<close>, where SPLIT is legal and the deck holds one card: there \<open>split\<close>
  throws at its second draw and inserts no hand.
\<close>

theorem split_on_one_card_deck_throws:
  "reachable g_short1
   \<and> getAvailableActions g_short1 = Inr [HIT, STAND, DOUBLE_DOWN, SPLIT]
   \<and> length (deck g_short1) = 1
   \<and> fst (split g_short1) = Some DeckEmpty
   \<and> length (playerHands (snd (split g_short1))) = length (playerHands g_short1)"
proof -
  have a: "getAvailableActions g_short1 = Inr [HIT, STAND, DOUBLE_DOWN, SPLIT]"
    by code_simp
  have b: "length (deck g_short1) = 1"
    by code_simp
  have c: "fst (split g_short1) = Some DeckEmpty"
    by code_simp
  have d: "length (playerHands (snd (split g_short1))) = length (playerHands g_short1)"
    by code_simp
  from reachable_g_short1 a b c d show ?thesis by simp
qed

text \<open>
  Claim C7, amended. After a legal \<open>split\<close> on a deck of at least two cards: no error,
  the active index is kept, there is one hand more, the hands before the active one are
  kept and those after it move up by one, the active hand holds its first card and the
  first card drawn, the hand after it holds the split-off card and the second card drawn
  (two cards each), both have the bet of the original hand, the new hand is ACTIVE and
  PENDING, and the active hand is STOOD if its two cards total 21 and keeps its status
  otherwise. On a deck of fewer than two cards a legal \<open>split\<close> throws the deck-empty
  error and inserts no hand.
\<close>

theorem split_legal_effect:
  assumes "getAvailableActions g = Inr actions"
    and "SPLIT \<in> set actions"
  shows "(2 \<le> length (deck g) \<longrightarrow>
     fst (split g) = None
         \<and> activeHandIndex (snd (split g)) = activeHandIndex g
         \<and> length (playerHands (snd (split g))) = length (playerHands g) + 1
         \<and> take (activeHandIndex g) (playerHands (snd (split g)))
             = take (activeHandIndex g) (playerHands g)
         \<and> drop (activeHandIndex g + 2) (playerHands (snd (split g)))
             = drop (activeHandIndex g + 1) (playerHands g)
         \<and> cards (playerHands (snd (split g)) ! activeHandIndex g)
             = [hd (cards (playerHands g ! activeHandIndex g)), last (deck g)]
         \<and> cards (playerHands (snd (split g)) ! (activeHandIndex g + 1))
             = [last (cards (playerHands g ! activeHandIndex g)), last (butlast (deck g))]
         \<and> length (cards (playerHands (snd (split g)) ! activeHandIndex g)) = 2
         \<and> length (cards (playerHands (snd (split g)) ! (activeHandIndex g + 1))) = 2
         \<and> bet (playerHands (snd (split g)) ! activeHandIndex g)
             = bet (playerHands g ! activeHandIndex g)
         \<and> bet (playerHands (snd (split g)) ! (activeHandIndex g + 1))
             = bet (playerHands g ! activeHandIndex g)
         \<and> status (playerHands (snd (split g)) ! (activeHandIndex g + 1)) = ACTIVE
         \<and> result (playerHands (snd (split g)) ! (activeHandIndex g + 1)) = PENDING
         \<and> status (playerHands (snd (split g)) ! activeHandIndex g)
             = (if hv_value (getHandValue
                      (cards (playerHands (snd (split g)) ! activeHandIndex g))) = 21
                then STOOD else status (playerHands g ! activeHandIndex g)))
   \<and> (length (deck g) < 2 \<longrightarrow>
        fst (split g) = Some DeckEmpty
        \<and> length (playerHands (snd (split g))) = length (playerHands g))"
proof (rule conjI; rule impI)
  assume d: "2 \<le> length (deck g)"
  show "fst (split g) = None
         \<and> activeHandIndex (snd (split g)) = activeHandIndex g
         \<and> length (playerHands (snd (split g))) = length (playerHands g) + 1
         \<and> take (activeHandIndex g) (playerHands (snd (split g)))
             = take (activeHandIndex g) (playerHands g)
         \<and> drop (activeHandIndex g + 2) (playerHands (snd (split g)))
             = drop (activeHandIndex g + 1) (playerHands g)
         \<and> cards (playerHands (snd (split g)) ! activeHandIndex g)
             = [hd (cards (playerHands g ! activeHandIndex g)), last (deck g)]
         \<and> cards (playerHands (snd (split g)) ! (activeHandIndex g + 1))
             = [last (cards (playerHands g ! activeHandIndex g)), last (butlast (deck g))]
         \<and> length (cards (playerHands (snd (split g)) ! activeHandIndex g)) = 2
         \<and> length (cards (playerHands (snd (split g)) ! (activeHandIndex g + 1))) = 2
         \<and> bet (playerHands (snd (split g)) ! activeHandIndex g)
             = bet (playerHands g ! activeHandIndex g)
         \<and> bet (playerHands (snd (split g)) ! (activeHandIndex g + 1))
             = bet (playerHands g ! activeHandIndex g)
         \<and> status (playerHands (snd (split g)) ! (activeHandIndex g + 1)) = ACTIVE
         \<and> result (playerHands (snd (split g)) ! (activeHandIndex g + 1)) = PENDING
         \<and> status (playerHands (snd (split g)) ! activeHandIndex g)
             = (if hv_value (getHandValue
                      (cards (playerHands (snd (split g)) ! activeHandIndex g))) = 21
                then STOOD else status (playerHands g ! activeHandIndex g))"
    using split_legal_hands[OF assms d] by simp
next
  assume "length (deck g) < 2"
  with split_short_deck[OF legal_SPLIT(1)[OF assms]]
  show "fst (split g) = Some DeckEmpty
        \<and> length (playerHands (snd (split g))) = length (playerHands g)"
    by simp
qed

theorem split_legal_effect_witness:
  "getAvailableActions g_aces = Inr [HIT, STAND, DOUBLE_DOWN, SPLIT]
   \<and> SPLIT \<in> set [HIT, STAND, DOUBLE_DOWN, SPLIT]
   \<and> 2 \<le> length (deck g_aces)
   \<and> split g_aces =
       (None,
        g_aces\<lparr>deck := [\<lparr>rank = 5, suit = 0\<rparr>],
                playerHands :=
                  [\<lparr>cards = [\<lparr>rank = 1, suit = 0\<rparr>, \<lparr>rank = 13, suit = 2\<rparr>], bet = 10,
                    status = STOOD, result = PENDING\<rparr>,
                   \<lparr>cards = [\<lparr>rank = 1, suit = 1\<rparr>, \<lparr>rank = 4, suit = 1\<rparr>], bet = 10,
                    status = ACTIVE, result = PENDING\<rparr>]\<rparr>)
   \<and> status (playerHands (snd (split g_aces)) ! activeHandIndex g_aces) = STOOD
   \<and> length (playerHands (snd (split g_aces))) = length (playerHands g_aces) + 1
   \<and> getAvailableActions g_short1 = Inr [HIT, STAND, DOUBLE_DOWN, SPLIT]
   \<and> length (deck g_short1) < 2
   \<and> fst (split g_short1) = Some DeckEmpty
   \<and> length (playerHands (snd (split g_short1))) = 7"
proof -
  have a: "getAvailableActions g_aces = Inr [HIT, STAND, DOUBLE_DOWN, SPLIT]"
    by (simp add: g_aces_def g_turn_def getAvailableActions_def getActiveHand_def canSplit_def)
  have b: "SPLIT \<in> set [HIT, STAND, DOUBLE_DOWN, SPLIT]" by simp
  have c: "2 \<le> length (deck g_aces)" by (simp add: g_aces_def g_turn_def)
  have d: "split g_aces =
       (None,
        g_aces\<lparr>deck := [\<lparr>rank = 5, suit = 0\<rparr>],
                playerHands :=
                  [\<lparr>cards = [\<lparr>rank = 1, suit = 0\<rparr>, \<lparr>rank = 13, suit = 2\<rparr>], bet = 10,
                    status = STOOD, result = PENDING\<rparr>,
                   \<lparr>cards = [\<lparr>rank = 1, suit = 1\<rparr>, \<lparr>rank = 4, suit = 1\<rparr>], bet = 10,
                    status = ACTIVE, result = PENDING\<rparr>]\<rparr>)"
    by (simp add: split_def canPerformAction_def a)
       (simp add: g_aces_def g_turn_def dealCard_def getHandValue_def)
  have e: "activeHandIndex g_aces = 0" "length (playerHands g_aces) = 1"
    by (simp_all add: g_aces_def g_turn_def)
  have a1: "getAvailableActions g_short1 = Inr [HIT, STAND, DOUBLE_DOWN, SPLIT]"
    by code_simp
  have c1: "length (deck g_short1) < 2"
    by code_simp
  have l1: "length (playerHands g_short1) = 7"
    by code_simp
  from split_legal_effect[OF a b] split_legal_effect[OF a1 b] a b c d e a1 c1 l1
  show ?thesis by simp
qed

text \<open>
  Claim C8. \<open>evaluateResults\<close> sets the result of every hand from that hand and the
  dealer's hand alone: BUST gives DEALER_WINS; BLACKJACK gives PUSH if the dealer holds a
  two-card 21 and PLAYER_WINS otherwise; any other hand gives PLAYER_WINS if the dealer's
  total exceeds 21 or the player's total exceeds the dealer's, else DEALER_WINS if the
  player's total is smaller, else PUSH. Cards, bets and statuses are kept and the phase
  is ROUND_OVER afterwards.
\<close>

theorem evaluateResults_settles_each_hand:
  "phase (evaluateResults g) = ROUND_OVER
   \<and> length (playerHands (evaluateResults g)) = length (playerHands g)
   \<and> (\<forall>i < length (playerHands g).
        cards (playerHands (evaluateResults g) ! i) = cards (playerHands g ! i)
      \<and> bet (playerHands (evaluateResults g) ! i) = bet (playerHands g ! i)
      \<and> status (playerHands (evaluateResults g) ! i) = status (playerHands g ! i)
      \<and> (status (playerHands g ! i) = BUST
            \<longrightarrow> result (playerHands (evaluateResults g) ! i) = DEALER_WINS)
      \<and> (status (playerHands g ! i) = BLACKJACK
            \<longrightarrow> result (playerHands (evaluateResults g) ! i)
                = (if hv_value (getHandValue (dealerHand g)) = 21 \<and> length (dealerHand g) = 2
                   then PUSH else PLAYER_WINS))
      \<and> (status (playerHands g ! i) \<noteq> BUST \<and> status (playerHands g ! i) \<noteq> BLACKJACK
            \<longrightarrow> result (playerHands (evaluateResults g) ! i)
                = (if hv_value (getHandValue (dealerHand g)) > 21
                      \<or> hv_value (getHandValue (cards (playerHands g ! i)))
                          > hv_value (getHandValue (dealerHand g))
                   then PLAYER_WINS
                   else if hv_value (getHandValue (cards (playerHands g ! i)))
                          < hv_value (getHandValue (dealerHand g))
                   then DEALER_WINS
                   else PUSH)))"
  by (simp add: evaluateResults_def settleHand_def Let_def)

theorem evaluateResults_settles_each_hand_witness:
  "length (playerHands g_settle) = 5
   \<and> status (playerHands g_settle ! 0) = BUST
   \<and> status (playerHands g_settle ! 1) = BLACKJACK
   \<and> status (playerHands g_settle ! 2) = STOOD
   \<and> map result (playerHands (evaluateResults g_settle))
       = [DEALER_WINS, PLAYER_WINS, PLAYER_WINS, DEALER_WINS, PUSH]
   \<and> phase (evaluateResults g_settle) = ROUND_OVER"
  using evaluateResults_settles_each_hand[of g_settle]
  by (simp add: g_settle_def evaluateResults_def settleHand_def getHandValue_def)

text \<open>
  Claim C9. \<open>getAvailableActions\<close> returns the empty list outside the player's turn; in
  the player's turn, with the active hand in place, it returns a list that holds HIT
  and STAND, holds DOUBLE_DOWN iff the active hand has exactly two cards, holds SPLIT iff
  the active hand has exactly two cards whose ranks agree under \<open>min rank 10\<close>, and
  never holds INSURANCE. (By \<open>reachable_active_ok\<close> the active hand is in place in every
  state the public methods can produce.) The witness has ranks 10 and 13, which may be
  split, and ranks 9 and 10, which may not.
\<close>

theorem getAvailableActions_spec:
  "(phase g \<noteq> PLAYER_TURN \<longrightarrow> getAvailableActions g = Inr [])
   \<and> (phase g = PLAYER_TURN \<and> activeHandIndex g < length (playerHands g) \<longrightarrow>
        (\<exists>actions. getAvailableActions g = Inr actions
           \<and> HIT \<in> set actions \<and> STAND \<in> set actions
           \<and> (DOUBLE_DOWN \<in> set actions
                \<longleftrightarrow> length (cards (playerHands g ! activeHandIndex g)) = 2)
           \<and> (SPLIT \<in> set actions
                \<longleftrightarrow> (\<exists>c1 c2. cards (playerHands g ! activeHandIndex g) = [c1, c2]
                          \<and> min (rank c1) 10 = min (rank c2) 10))
           \<and> INSURANCE \<notin> set actions))"
proof -
  have cs: "canSplit h \<longleftrightarrow> (\<exists>c1 c2. cards h = [c1, c2] \<and> min (rank c1) 10 = min (rank c2) 10)" for h
  proof (cases "cards h")
    case Nil
    then show ?thesis by (simp add: canSplit_def)
  next
    case (Cons a as)
    note c1 = this
    show ?thesis
    proof (cases as)
      case Nil
      with c1 show ?thesis by (simp add: canSplit_def)
    next
      case (Cons b bs)
      with c1 show ?thesis
        by (cases bs) (auto simp: canSplit_def Let_def min_def)
    qed
  qed
  have l2: "(\<exists>c1 c2. cards h = [c1, c2] \<and> P c1 c2) \<Longrightarrow> length (cards h) = 2" for h P
    by auto
  show ?thesis
    using l2 by (auto simp: getAvailableActions_other_phase getAvailableActions_PLAYER_TURN cs)
qed

theorem getAvailableActions_spec_witness:
  "phase g_over \<noteq> PLAYER_TURN \<and> getAvailableActions g_over = Inr []
   \<and> phase g_turn = PLAYER_TURN \<and> activeHandIndex g_turn < length (playerHands g_turn)
   \<and> cards (playerHands g_turn ! activeHandIndex g_turn)
       = [\<lparr>rank = 10, suit = 0\<rparr>, \<lparr>rank = 13, suit = 0\<rparr>]
   \<and> getAvailableActions g_turn = Inr [HIT, STAND, DOUBLE_DOWN, SPLIT]
   \<and> phase g_turn_9_10 = PLAYER_TURN
   \<and> activeHandIndex g_turn_9_10 < length (playerHands g_turn_9_10)
   \<and> cards (playerHands g_turn_9_10 ! activeHandIndex g_turn_9_10)
       = [\<lparr>rank = 9, suit = 0\<rparr>, \<lparr>rank = 10, suit = 0\<rparr>]
   \<and> getAvailableActions g_turn_9_10 = Inr [HIT, STAND, DOUBLE_DOWN]"
  using getAvailableActions_spec[of g_over] getAvailableActions_spec[of g_turn]
    getAvailableActions_spec[of g_turn_9_10]
  by (simp add: g_over_def g_turn_def g_turn_9_10_def getAvailableActions_def getActiveHand_def
        canSplit_def)

text \<open>
  Claim C10, as stated: the legal actions depend on the phase and on the number of cards
  of the active hand only, and after a split that leaves the original hand STOOD on 21 a
  following \<open>hit\<close> deals a card to it. The legal actions depend on the ranks as well:
  \<open>g_turn\<close> and \<open>g_turn_9_10\<close> agree in phase, in the number of cards and in the status of
  the active hand, and only one of them offers SPLIT. And the engine reaches \<open>g_short2\<close>,
  where SPLIT is legal and the deck holds two cards: \<open>split\<close> leaves the original hand
  STOOD on 21 and the deck empty, and the following \<open>hit\<close> throws and deals nothing.
\<close>

theorem legal_actions_inspect_ranks_and_hit_needs_a_card:
  "phase g_turn = phase g_turn_9_10
   \<and> length (cards (playerHands g_turn ! activeHandIndex g_turn))
       = length (cards (playerHands g_turn_9_10 ! activeHandIndex g_turn_9_10))
   \<and> status (playerHands g_turn ! activeHandIndex g_turn)
       = status (playerHands g_turn_9_10 ! activeHandIndex g_turn_9_10)
   \<and> getAvailableActions g_turn = Inr [HIT, STAND, DOUBLE_DOWN, SPLIT]
   \<and> getAvailableActions g_turn_9_10 = Inr [HIT, STAND, DOUBLE_DOWN]
   \<and> getAvailableActions g_turn \<noteq> getAvailableActions g_turn_9_10
   \<and> reachable g_short2
   \<and> getAvailableActions g_short2 = Inr [HIT, STAND, DOUBLE_DOWN, SPLIT]
   \<and> fst (split g_short2) = None
   \<and> status (playerHands (snd (split g_short2)) ! activeHandIndex (snd (split g_short2)))
       = STOOD
   \<and> hv_value (getHandValue
         (cards (playerHands (snd (split g_short2)) ! activeHandIndex (snd (split g_short2)))))
       = 21
   \<and> getAvailableActions (snd (split g_short2)) = Inr [HIT, STAND, DOUBLE_DOWN]
   \<and> hit (snd (split g_short2)) = (Some DeckEmpty, snd (split g_short2))"
proof -
  have r: "phase g_turn = phase g_turn_9_10
   \<and> length (cards (playerHands g_turn ! activeHandIndex g_turn))
       = length (cards (playerHands g_turn_9_10 ! activeHandIndex g_turn_9_10))
   \<and> status (playerHands g_turn ! activeHandIndex g_turn)
       = status (playerHands g_turn_9_10 ! activeHandIndex g_turn_9_10)
   \<and> getAvailableActions g_turn = Inr [HIT, STAND, DOUBLE_DOWN, SPLIT]
   \<and> getAvailableActions g_turn_9_10 = Inr [HIT, STAND, DOUBLE_DOWN]
   \<and> getAvailableActions g_turn \<noteq> getAvailableActions g_turn_9_10"
    by (simp add: g_turn_def g_turn_9_10_def getAvailableActions_def getActiveHand_def
          canSplit_def)
  have a: "getAvailableActions g_short2 = Inr [HIT, STAND, DOUBLE_DOWN, SPLIT]"
    by code_simp
  have b: "fst (split g_short2) = None"
    by code_simp
  have c: "status (playerHands (snd (split g_short2)) ! activeHandIndex (snd (split g_short2)))
       = STOOD"
    by code_simp
  have d: "hv_value (getHandValue
         (cards (playerHands (snd (split g_short2)) ! activeHandIndex (snd (split g_short2)))))
       = 21"
    by code_simp
  have e: "getAvailableActions (snd (split g_short2)) = Inr [HIT, STAND, DOUBLE_DOWN]"
    by code_simp
  have f: "hit (snd (split g_short2)) = (Some DeckEmpty, snd (split g_short2))"
    by code_simp
  from r reachable_g_short2 a b c d e f show ?thesis by simp
qed

text \<open>
  Claim C10, amended. The legal actions depend only on the phase and on the cards of the
  active hand, their number and, for SPLIT only, their ranks, never on its status: two
  engines that agree in phase and in the ranks of the active hand have the same legal
  actions, and two that agree in phase and in the number of cards of the active hand
  allow the same actions other than SPLIT. So after a legal \<open>split\<close> on a deck of at least
  two cards that leaves the original hand with two cards of total 21, that hand is STOOD
  and still the active one, and HIT, STAND and DOUBLE_DOWN are offered. A following
  \<open>hit\<close> returns without error and appends the next card of the deck to that hand when
  the deck still holds a card, that is when it held at least three before the split; on
  a deck that held exactly two, \<open>hit\<close> throws the deck-empty error and deals nothing.
\<close>

theorem getAvailableActions_ignores_status:
  "(phase s = phase s'
      \<and> map_option (\<lambda>h. map rank (cards h)) (getActiveHand s)
          = map_option (\<lambda>h. map rank (cards h)) (getActiveHand s')
      \<longrightarrow> getAvailableActions s = getAvailableActions s')
   \<and> (phase s = phase s'
      \<and> map_option (\<lambda>h. length (cards h)) (getActiveHand s)
          = map_option (\<lambda>h. length (cards h)) (getActiveHand s')
      \<and> a \<noteq> SPLIT
      \<longrightarrow> canPerformAction a s = canPerformAction a s')
   \<and> (getAvailableActions g = Inr actions \<and> SPLIT \<in> set actions \<and> 2 \<le> length (deck g)
       \<and> hv_value (getHandValue
             [hd (cards (playerHands g ! activeHandIndex g)), last (deck g)]) = 21
      \<longrightarrow> fst (split g) = None
        \<and> activeHandIndex (snd (split g)) = activeHandIndex g
        \<and> status (playerHands (snd (split g)) ! activeHandIndex g) = STOOD
        \<and> hv_value (getHandValue (cards (playerHands (snd (split g)) ! activeHandIndex g))) = 21
        \<and> (\<exists>actions1. getAvailableActions (snd (split g)) = Inr actions1
              \<and> HIT \<in> set actions1 \<and> STAND \<in> set actions1 \<and> DOUBLE_DOWN \<in> set actions1)
        \<and> (3 \<le> length (deck g)
            \<longrightarrow> fst (hit (snd (split g))) = None
              \<and> cards (playerHands (snd (hit (snd (split g)))) ! activeHandIndex g)
                  = cards (playerHands (snd (split g)) ! activeHandIndex g)
                    @ [last (deck (snd (split g)))])
        \<and> (length (deck g) = 2
            \<longrightarrow> hit (snd (split g)) = (Some DeckEmpty, snd (split g))))"
proof -
  have p1: "getAvailableActions s = getAvailableActions s'"
    if a: "phase s = phase s'
      \<and> map_option (\<lambda>h. map rank (cards h)) (getActiveHand s)
          = map_option (\<lambda>h. map rank (cards h)) (getActiveHand s')"
  proof (cases "getActiveHand s")
    case None
    with a have "getActiveHand s' = None" by simp
    with None a show ?thesis by (simp add: getAvailableActions_def)
  next
    case (Some h)
    with a obtain h' where h': "getActiveHand s' = Some h'"
      and c: "map rank (cards h') = map rank (cards h)"
      by (cases "getActiveHand s'") auto
    from c have l: "length (cards h') = length (cards h)"
      by (rule map_eq_imp_length_eq)
    from c have "canSplit h' = canSplit h" by (rule canSplit_ranks)
    with Some h' l a show ?thesis by (simp add: getAvailableActions_def)
  qed
  have p2: "canPerformAction a s = canPerformAction a s'"
    if b: "phase s = phase s'
      \<and> map_option (\<lambda>h. length (cards h)) (getActiveHand s)
          = map_option (\<lambda>h. length (cards h)) (getActiveHand s')
      \<and> a \<noteq> SPLIT"
  proof (cases "getActiveHand s")
    case None
    with b have "getActiveHand s' = None" by simp
    with None b show ?thesis by (simp add: canPerformAction_def getAvailableActions_def)
  next
    case (Some h)
    with b obtain h' where h': "getActiveHand s' = Some h'"
      and l: "length (cards h') = length (cards h)"
      by (cases "getActiveHand s'") auto
    from b have "a \<noteq> SPLIT" by simp
    with Some h' l b show ?thesis
      by (cases a) (simp_all add: canPerformAction_def getAvailableActions_def Let_def)
  qed
  have p3: "fst (split g) = None
        \<and> activeHandIndex (snd (split g)) = activeHandIndex g
        \<and> status (playerHands (snd (split g)) ! activeHandIndex g) = STOOD
        \<and> hv_value (getHandValue (cards (playerHands (snd (split g)) ! activeHandIndex g))) = 21
        \<and> (\<exists>actions1. getAvailableActions (snd (split g)) = Inr actions1
              \<and> HIT \<in> set actions1 \<and> STAND \<in> set actions1 \<and> DOUBLE_DOWN \<in> set actions1)
        \<and> (3 \<le> length (deck g)
            \<longrightarrow> fst (hit (snd (split g))) = None
              \<and> cards (playerHands (snd (hit (snd (split g)))) ! activeHandIndex g)
                  = cards (playerHands (snd (split g)) ! activeHandIndex g)
                    @ [last (deck (snd (split g)))])
        \<and> (length (deck g) = 2
            \<longrightarrow> hit (snd (split g)) = (Some DeckEmpty, snd (split g)))"
    if b: "getAvailableActions g = Inr actions \<and> SPLIT \<in> set actions \<and> 2 \<le> length (deck g)
       \<and> hv_value (getHandValue
             [hd (cards (playerHands g ! activeHandIndex g)), last (deck g)]) = 21"
  proof -
    let ?i = "activeHandIndex g"
    let ?g1 = "snd (split g)"
    let ?c = "[hd (cards (playerHands g ! ?i)), last (deck g)]"
    from b have av: "getAvailableActions g = Inr actions" and sp: "SPLIT \<in> set actions"
      and d2: "2 \<le> length (deck g)" and v21: "hv_value (getHandValue ?c) = 21"
      by simp_all
    note s = split_legal_hands[OF av sp d2]
    note legal = legal_SPLIT[OF av sp]
    have idx: "activeHandIndex ?g1 = ?i" by (rule s(3))
    have hand: "playerHands ?g1 ! ?i = (playerHands g ! ?i)\<lparr>cards := ?c, status := STOOD\<rparr>"
      using s(8) v21 by simp
    have st: "status (playerHands ?g1 ! ?i) = STOOD" by (simp add: hand)
    have v: "hv_value (getHandValue (cards (playerHands ?g1 ! ?i))) = 21"
      by (simp add: hand v21)
    have i1: "activeHandIndex ?g1 < length (playerHands ?g1)"
      using legal(3) s(5) idx by simp
    have acts: "getAvailableActions ?g1 =
       Inr ([HIT, STAND, DOUBLE_DOWN]
            @ (if canSplit (playerHands ?g1 ! ?i) then [SPLIT] else []))"
      using getAvailableActions_PLAYER_TURN[OF s(2) i1] by (simp add: idx hand)
    then have offered: "\<exists>actions1. getAvailableActions ?g1 = Inr actions1
              \<and> HIT \<in> set actions1 \<and> STAND \<in> set actions1 \<and> DOUBLE_DOWN \<in> set actions1"
      by simp
    from acts have can: "canPerformAction HIT ?g1 = Inr True"
      by (simp add: canPerformAction_def)
    have dl: "length (deck ?g1) = length (deck g) - 2" by (simp add: s(4))
    have more: "3 \<le> length (deck g)
            \<longrightarrow> fst (hit ?g1) = None
              \<and> cards (playerHands (snd (hit ?g1)) ! ?i)
                  = cards (playerHands ?g1 ! ?i) @ [last (deck ?g1)]"
    proof (rule impI)
      assume d3: "3 \<le> length (deck g)"
      from dl d3 have ne: "deck ?g1 \<noteq> []" by auto
      have nobust: "\<not> hv_value (getHandValue (cards (playerHands ?g1 ! activeHandIndex ?g1)
                      @ [last (deck ?g1)])) > 21"
        using two_card_21_no_bust[OF v21, of "last (deck ?g1)"] by (simp add: idx hand)
      have h1: "fst (hit ?g1) = None"
        using nobust by (simp add: hit_legal[OF can ne])
      have m: "map cards (playerHands (snd (hit ?g1)))
           = (map cards (playerHands ?g1))
               [?i := cards (playerHands ?g1 ! ?i) @ [last (deck ?g1)]]"
        using hit_legal_cards[OF can ne] by (simp add: idx)
      then have len: "length (playerHands (snd (hit ?g1))) = length (playerHands ?g1)"
        by (metis length_list_update length_map)
      with i1 idx have i2: "?i < length (playerHands (snd (hit ?g1)))" by simp
      have "cards (playerHands (snd (hit ?g1)) ! ?i)
            = map cards (playerHands (snd (hit ?g1))) ! ?i"
        using i2 by simp
      also have "\<dots> = cards (playerHands ?g1 ! ?i) @ [last (deck ?g1)]"
        unfolding m using i1 idx by simp
      finally have "cards (playerHands (snd (hit ?g1)) ! ?i)
            = cards (playerHands ?g1 ! ?i) @ [last (deck ?g1)]" .
      with h1 show "fst (hit ?g1) = None
              \<and> cards (playerHands (snd (hit ?g1)) ! ?i)
                  = cards (playerHands ?g1 ! ?i) @ [last (deck ?g1)]"
        by (rule conjI)
    qed
    have none: "length (deck g) = 2 \<longrightarrow> hit ?g1 = (Some DeckEmpty, ?g1)"
    proof (rule impI)
      assume e2: "length (deck g) = 2"
      from dl e2 have "deck ?g1 = []" by simp
      with can show "hit ?g1 = (Some DeckEmpty, ?g1)" by (rule hit_legal_empty)
    qed
    show ?thesis
      by (rule conjI[OF s(1) conjI[OF idx conjI[OF st conjI[OF v
            conjI[OF offered conjI[OF more none]]]]]])
  qed
  show ?thesis
    by (rule conjI, rule impI, erule p1, rule conjI, rule impI, erule p2, rule impI, erule p3)
qed

theorem getAvailableActions_ignores_status_witness:
  "phase (snd (split g_aces)) = PLAYER_TURN
   \<and> status (playerHands (snd (split g_aces)) ! 0) = STOOD
   \<and> getAvailableActions
        ((snd (split g_aces))\<lparr>playerHands :=
            (playerHands (snd (split g_aces)))
              [0 := (playerHands (snd (split g_aces)) ! 0)\<lparr>status := ACTIVE\<rparr>]\<rparr>)
       = getAvailableActions (snd (split g_aces))
   \<and> phase g_turn = phase g_turn_9_10
   \<and> HIT \<noteq> SPLIT
   \<and> canPerformAction HIT g_turn = canPerformAction HIT g_turn_9_10
   \<and> getAvailableActions g_aces = Inr [HIT, STAND, DOUBLE_DOWN, SPLIT]
   \<and> SPLIT \<in> set [HIT, STAND, DOUBLE_DOWN, SPLIT]
   \<and> 3 \<le> length (deck g_aces)
   \<and> hv_value (getHandValue
         [hd (cards (playerHands g_aces ! activeHandIndex g_aces)), last (deck g_aces)]) = 21
   \<and> getAvailableActions (snd (split g_aces)) = Inr [HIT, STAND, DOUBLE_DOWN]
   \<and> fst (hit (snd (split g_aces))) = None
   \<and> cards (playerHands (snd (hit (snd (split g_aces)))) ! 0)
       = [\<lparr>rank = 1, suit = 0\<rparr>, \<lparr>rank = 13, suit = 2\<rparr>, \<lparr>rank = 5, suit = 0\<rparr>]
   \<and> getAvailableActions g_short2 = Inr [HIT, STAND, DOUBLE_DOWN, SPLIT]
   \<and> length (deck g_short2) = 2
   \<and> hv_value (getHandValue
         [hd (cards (playerHands g_short2 ! activeHandIndex g_short2)), last (deck g_short2)])
       = 21
   \<and> status (playerHands (snd (split g_short2)) ! activeHandIndex g_short2) = STOOD
   \<and> hit (snd (split g_short2)) = (Some DeckEmpty, snd (split g_short2))"
proof -
  have a: "getAvailableActions g_aces = Inr [HIT, STAND, DOUBLE_DOWN, SPLIT]"
    by (simp add: g_aces_def g_turn_def getAvailableActions_def getActiveHand_def canSplit_def)
  have d: "split g_aces =
       (None,
        g_aces\<lparr>deck := [\<lparr>rank = 5, suit = 0\<rparr>],
                playerHands :=
                  [\<lparr>cards = [\<lparr>rank = 1, suit = 0\<rparr>, \<lparr>rank = 13, suit = 2\<rparr>], bet = 10,
                    status = STOOD, result = PENDING\<rparr>,
                   \<lparr>cards = [\<lparr>rank = 1, suit = 1\<rparr>, \<lparr>rank = 4, suit = 1\<rparr>], bet = 10,
                    status = ACTIVE, result = PENDING\<rparr>]\<rparr>)"
    by (simp add: split_def canPerformAction_def a)
       (simp add: g_aces_def g_turn_def dealCard_def getHandValue_def)
  have e: "activeHandIndex g_aces = 0" "phase g_aces = PLAYER_TURN"
    "deck g_aces = [\<lparr>rank = 5, suit = 0\<rparr>, \<lparr>rank = 4, suit = 1\<rparr>, \<lparr>rank = 13, suit = 2\<rparr>]"
    "playerHands g_aces = [\<lparr>cards = [\<lparr>rank = 1, suit = 0\<rparr>, \<lparr>rank = 1, suit = 1\<rparr>], bet = 10,
        status = ACTIVE, result = PENDING\<rparr>]"
    by (simp_all add: g_aces_def g_turn_def)
  have v: "hv_value (getHandValue [\<lparr>rank = 1, suit = 0\<rparr>, \<lparr>rank = 13, suit = 2\<rparr>]) = 21"
    by (simp add: getHandValue_def)
  have f: "getAvailableActions (snd (split g_aces)) = Inr [HIT, STAND, DOUBLE_DOWN]"
    by (simp add: d e getAvailableActions_def getActiveHand_def canSplit_def)
  have same: "getAvailableActions
        ((snd (split g_aces))\<lparr>playerHands :=
            (playerHands (snd (split g_aces)))
              [0 := (playerHands (snd (split g_aces)) ! 0)\<lparr>status := ACTIVE\<rparr>]\<rparr>)
       = getAvailableActions (snd (split g_aces))"
    using getAvailableActions_ignores_status[where
        s = "(snd (split g_aces))\<lparr>playerHands :=
            (playerHands (snd (split g_aces)))
              [0 := (playerHands (snd (split g_aces)) ! 0)\<lparr>status := ACTIVE\<rparr>]\<rparr>"
        and s' = "snd (split g_aces)" and a = HIT and g = g_aces and actions = "[]"]
    by (simp add: d e getActiveHand_def)
  have t: "phase g_turn = phase g_turn_9_10"
    "map_option (\<lambda>h. length (cards h)) (getActiveHand g_turn)
      = map_option (\<lambda>h. length (cards h)) (getActiveHand g_turn_9_10)"
    by (simp_all add: g_turn_def g_turn_9_10_def getActiveHand_def)
  have hitsame: "canPerformAction HIT g_turn = canPerformAction HIT g_turn_9_10"
    using getAvailableActions_ignores_status[where s = g_turn and s' = g_turn_9_10 and a = HIT
        and g = g_aces and actions = "[]"] t
    by simp
  have a2: "getAvailableActions g_short2 = Inr [HIT, STAND, DOUBLE_DOWN, SPLIT]"
    by code_simp
  have l2: "length (deck g_short2) = 2"
    by code_simp
  have v2: "hv_value (getHandValue
         [hd (cards (playerHands g_short2 ! activeHandIndex g_short2)), last (deck g_short2)])
       = 21"
    by code_simp
  from getAvailableActions_ignores_status[where g = g_aces
        and actions = "[HIT, STAND, DOUBLE_DOWN, SPLIT]"
        and s = g_aces and s' = g_aces and a = HIT]
    getAvailableActions_ignores_status[where g = g_short2
        and actions = "[HIT, STAND, DOUBLE_DOWN, SPLIT]"
        and s = g_aces and s' = g_aces and a = HIT]
    a d e v f same t hitsame a2 l2 v2
  show ?thesis by simp
qed

end
